theory Spec2Isabelle
  imports Complex_Main "HOL-Library.Word" "HOL-Library.Multiset" "HOL-Library.Log_Nat"
begin

section \<open>Errors and integer helpers\<close>

text \<open>
  The JavaScript sources signal failure by throwing. Every throw that the modelled
  functions can reach is a constructor here: \<open>Error msg\<close> is \<^verbatim>\<open>throw new Error(msg)\<close> in
  the repository's own code, \<open>RangeError\<close> is the engine's BigInt division by zero, and
  \<open>InvalidArgument\<close>, \<open>NumericFault\<close>, \<open>BufferOverrun\<close> are the failures of the ethers
  (v6) argument checks (\<^verbatim>\<open>assertArgument\<close>, \<^verbatim>\<open>assert(..., "NUMERIC_FAULT")\<close>,
  \<^verbatim>\<open>assert(..., "BUFFER_OVERRUN")\<close>).
\<close>

datatype error = Error string | RangeError | InvalidArgument | NumericFault | BufferOverrun

text \<open>Decimal digits, as \<^verbatim>\<open>[0-9]\<close> in a regular expression and as \<^verbatim>\<open>BigInt(string)\<close> reads them.\<close>

definition is_digit :: "char \<Rightarrow> bool" where
  "is_digit c = (48 \<le> (of_char c :: nat) \<and> (of_char c :: nat) \<le> 57)"

definition digit_val :: "char \<Rightarrow> nat" where
  "digit_val c = of_char c - 48"

definition digits_to_nat :: "string \<Rightarrow> nat" where
  "digits_to_nat ds = foldl (\<lambda>acc c. 10 * acc + digit_val c) 0 ds"

text \<open>
  \<^verbatim>\<open>ethers.parseUnits(value, decimals)\<close> on a string, which is
  \<^verbatim>\<open>FixedNumber.fromString(value, {decimals, width: 512}).value\<close>: the string must match
  \<^verbatim>\<open>^(-?)([0-9]*)\.?([0-9]*)$\<close> with at least one digit; the fraction is padded with
  zeros to \<open>decimals\<close> places; digits beyond \<open>decimals\<close> places must all be zero; the
  value is \<^verbatim>\<open>BigInt(sign + whole + fraction)\<close> and must fit 512 signed bits.
\<close>

definition parseUnits :: "string \<Rightarrow> nat \<Rightarrow> error + int" where
  "parseUnits value decimals =
     (let negative = (value \<noteq> [] \<and> hd value = CHR ''-'');
          rest = (if negative then tl value else value);
          whole = takeWhile is_digit rest;
          rest2 = dropWhile is_digit rest;
          rest3 = (if rest2 \<noteq> [] \<and> hd rest2 = CHR ''.'' then tl rest2 else rest2);
          decimal = takeWhile is_digit rest3;
          trailing = dropWhile is_digit rest3
      in if trailing \<noteq> [] \<or> length whole + length decimal = 0 then Inl InvalidArgument
         else
           let padded = decimal @ replicate (decimals - length decimal) (CHR ''0'')
           in if \<not> list_all (\<lambda>c. c = CHR ''0'') (drop decimals padded) then Inl NumericFault
              else
                let magnitude = int (digits_to_nat (whole @ take decimals padded));
                    v = (if negative then - magnitude else magnitude)
                in if - (2 ^ 511) \<le> v \<and> v < 2 ^ 511 then Inr v else Inl NumericFault)"

text \<open>
  Division of two BigInts: the quotient is truncated toward zero, and a zero divisor
  throws a RangeError.
\<close>

definition bigint_div :: "int \<Rightarrow> int \<Rightarrow> error + int" where
  "bigint_div a b =
     (if b = 0 then Inl RangeError else Inr (sgn a * sgn b * (\<bar>a\<bar> div \<bar>b\<bar>)))"

section \<open>orderFiller.js: the fill amount\<close>

text \<open>
  \<^verbatim>\<open>calculateFillAmount(takerBetAmount, percentageOdds)\<close>. The stake is the string the
  caller typed; \<open>percentageOdds\<close> is the integer that \<^verbatim>\<open>ethers.getBigInt\<close> reads from
  the order's decimal string. The result is the BigInt whose decimal rendering
  (\<^verbatim>\<open>fillAmount.toString()\<close>) the function returns.
\<close>

definition calculateFillAmount :: "string \<Rightarrow> int \<Rightarrow> error + int" where
  "calculateFillAmount takerBetAmount percentageOdds =
     (case parseUnits takerBetAmount 6 of
        Inl e \<Rightarrow> Inl e
      | Inr takerBetAmountBN \<Rightarrow>
          let percentageOddsBN = percentageOdds;
              base = 100000000000000000000;
              denominator = base - percentageOddsBN
          in bigint_div (takerBetAmountBN * percentageOddsBN) denominator)"

section \<open>JavaScript numbers\<close>

text \<open>
  \<^verbatim>\<open>utils.js\<close> and \<^verbatim>\<open>oddsUtils.js\<close> compute with JavaScript numbers, which are IEEE 754
  binary64 values. A finite double is modelled by the real number it denotes, next to
  the two infinities and NaN; the sign of zero is not modelled (\<open>Finite 0\<close> stands for
  both zeros, read as \<open>+0\<close>). Every arithmetic operation computes the exact result and
  rounds it to the nearest double, ties to even, with \<open>fl\<close>.
\<close>

datatype number = Finite real | PosInfinity | NegInfinity | NaN

text \<open>Integer powers of a base, and the exponent of a positive real in that base.\<close>

definition bpow :: "nat \<Rightarrow> int \<Rightarrow> real" where
  "bpow b k = (if 0 \<le> k then real b ^ nat k else 1 / real b ^ nat (- k))"

text \<open>
  \<open>ilog b x = e\<close> with \<open>b^e \<le> x < b^(e+1)\<close> (lemma \<open>ilog_bounds\<close> below), computed
  from the number of digits of an integer in base \<open>b\<close>.
\<close>

definition ilog :: "nat \<Rightarrow> real \<Rightarrow> int" where
  "ilog b x = (if 1 \<le> x then int (floorlog b (nat \<lfloor>x\<rfloor>)) - 1
               else - int (floorlog b (nat (\<lceil>1 / x\<rceil> - 1))))"

definition round_half_even :: "real \<Rightarrow> int" where
  "round_half_even x =
     (let f = \<lfloor>x\<rfloor>; r = x - of_int f
      in if r < 1 / 2 then f else if 1 / 2 < r then f + 1 else if even f then f else f + 1)"

text \<open>
  Rounding to binary64: 53 significant bits, the exponent of the unit in the last place
  bounded below by \<open>-1074\<close> (subnormal numbers), overflow to an infinity from \<open>2^1024\<close>.
\<close>

definition fl :: "real \<Rightarrow> number" where
  "fl x =
     (if x = 0 then Finite 0
      else
        let e = max (ilog 2 \<bar>x\<bar>) (- 1022);
            ulp = bpow 2 (e - 52);
            y = of_int (round_half_even (\<bar>x\<bar> / ulp)) * ulp
        in if bpow 2 1024 \<le> y then (if 0 < x then PosInfinity else NegInfinity)
           else Finite (sgn x * y))"

fun ext_sign :: "number \<Rightarrow> real" where
  "ext_sign (Finite a) = sgn a"
| "ext_sign PosInfinity = 1"
| "ext_sign NegInfinity = - 1"
| "ext_sign NaN = 0"

definition inf_of_sign :: "real \<Rightarrow> number" where
  "inf_of_sign s = (if 0 < s then PosInfinity else if s < 0 then NegInfinity else NaN)"

text \<open>The operators \<^verbatim>\<open>*\<close>, \<^verbatim>\<open>/\<close>, \<^verbatim>\<open>-\<close> and \<^verbatim>\<open><=\<close> on numbers. None of them throws.\<close>

fun js_mul :: "number \<Rightarrow> number \<Rightarrow> number" where
  "js_mul NaN y = NaN"
| "js_mul x NaN = NaN"
| "js_mul (Finite a) (Finite b) = fl (a * b)"
| "js_mul x y = inf_of_sign (ext_sign x * ext_sign y)"

fun js_div :: "number \<Rightarrow> number \<Rightarrow> number" where
  "js_div NaN y = NaN"
| "js_div x NaN = NaN"
| "js_div (Finite a) (Finite b) = (if b = 0 then inf_of_sign (sgn a) else fl (a / b))"
| "js_div (Finite a) y = Finite 0"
| "js_div x (Finite b) = inf_of_sign (ext_sign x * (if b < 0 then - 1 else 1))"
| "js_div x y = NaN"

fun js_sub :: "number \<Rightarrow> number \<Rightarrow> number" where
  "js_sub NaN y = NaN"
| "js_sub x NaN = NaN"
| "js_sub (Finite a) (Finite b) = fl (a - b)"
| "js_sub (Finite a) y = inf_of_sign (- ext_sign y)"
| "js_sub x (Finite b) = x"
| "js_sub x y = (if x = y then NaN else x)"

fun js_le :: "number \<Rightarrow> number \<Rightarrow> bool" where
  "js_le NaN y = False"
| "js_le x NaN = False"
| "js_le (Finite a) (Finite b) = (a \<le> b)"
| "js_le NegInfinity y = True"
| "js_le x PosInfinity = True"
| "js_le x y = False"

text \<open>\<^verbatim>\<open>Math.round\<close>: the nearest integer, a tie going toward \<open>+\<infinity>\<close>.\<close>

fun Math_round :: "number \<Rightarrow> number" where
  "Math_round (Finite a) = Finite (of_int \<lfloor>a + 1 / 2\<rfloor>)"
| "Math_round x = x"

text \<open>
  \<^verbatim>\<open>parseFloat\<close> on the decimal string of an integer, as the API writes
  \<open>totalBetSize\<close>, \<open>fillAmount\<close> and \<open>percentageOdds\<close>: the double nearest to it.
\<close>

definition parseFloat :: "int \<Rightarrow> number" where
  "parseFloat n = fl (of_int n)"

text \<open>\<^verbatim>\<open>Math.pow(10, 20)\<close>: \<open>10^20\<close> is a double.\<close>

definition Math_pow_10_20 :: number where
  "Math_pow_10_20 = Finite (10 ^ 20)"

section \<open>utils.js: odds and bet size conversion\<close>

definition toImpliedOdds :: "int \<Rightarrow> number" where
  "toImpliedOdds percentageOdds = js_div (parseFloat percentageOdds) Math_pow_10_20"

definition calculateTakerImpliedOdds :: "int \<Rightarrow> number" where
  "calculateTakerImpliedOdds percentageOdds =
     (let makerOdds = toImpliedOdds percentageOdds in js_sub (Finite 1) makerOdds)"


definition calculateRemainingTakerSpace :: "int \<Rightarrow> int \<Rightarrow> int \<Rightarrow> number" where
  "calculateRemainingTakerSpace totalBetSize fillAmount percentageOdds =
     (let totalBetSizeBN = parseFloat totalBetSize;
          fillAmountBN = parseFloat fillAmount;
          remainingMakerAmount = js_sub totalBetSizeBN fillAmountBN
      in if js_le remainingMakerAmount (Finite 0) then Finite 0
         else
           let percentageOddsBN = parseFloat percentageOdds
           in js_sub (js_div (js_mul remainingMakerAmount Math_pow_10_20) percentageOddsBN)
                remainingMakerAmount)"

section \<open>Number.prototype.toString\<close>

text \<open>
  The decimal rendering of a number (ECMAScript, Number::toString with radix 10). For
  a positive finite \<open>x\<close> it takes integers \<open>n\<close>, \<open>k\<close>, \<open>s\<close> with \<open>k \<ge> 1\<close>,
  \<open>10^(k-1) \<le> s < 10^k\<close>, such that \<open>s * 10^(n-k)\<close> rounds to \<open>x\<close> and \<open>k\<close> is as small as
  possible; among several such \<open>s\<close> the one closest to \<open>x\<close>, an even one on a tie.
  Seventeen digits render every double.

  \<open>candidates x k n\<close> are the \<open>k\<close>-digit numbers at the decimal position \<open>n\<close> that
  round to \<open>x\<close>: only the two neighbours of \<open>x / 10^(n-k)\<close> can. With
  \<open>10^(n0-1) \<le> x < 10^n0\<close>, a shortest rendering has \<open>n = n0\<close>, or \<open>n = n0 + 1\<close> when
  \<open>x\<close> lies just below \<open>10^n0\<close>.
\<close>

definition digit_char :: "nat \<Rightarrow> char" where
  "digit_char d = ''0123456789'' ! d"

fun nat_to_digits :: "nat \<Rightarrow> string" where
  "nat_to_digits n =
     (if n < 10 then [digit_char n] else nat_to_digits (n div 10) @ [digit_char (n mod 10)])"

declare nat_to_digits.simps [simp del]

definition roundtrips :: "real \<Rightarrow> int \<Rightarrow> int \<Rightarrow> bool" where
  "roundtrips x s e = (fl (of_int s * bpow 10 e) = Finite x)"

definition candidates :: "real \<Rightarrow> nat \<Rightarrow> int \<Rightarrow> (int \<times> nat \<times> int) list" where
  "candidates x k n =
     (let f = \<lfloor>x / bpow 10 (n - int k)\<rfloor>
      in map (\<lambda>s. (n, k, s))
           (filter (\<lambda>s. 10 ^ (k - 1) \<le> s \<and> s < 10 ^ k \<and> roundtrips x s (n - int k))
              [f, f + 1]))"

fun first_nonempty :: "'a list list \<Rightarrow> 'a list" where
  "first_nonempty [] = []"
| "first_nonempty ([] # xss) = first_nonempty xss"
| "first_nonempty (xs # xss) = xs"

definition distance :: "real \<Rightarrow> int \<times> nat \<times> int \<Rightarrow> real" where
  "distance x c = (case c of (n, k, s) \<Rightarrow> \<bar>of_int s * bpow 10 (n - int k) - x\<bar>)"

definition closest :: "real \<Rightarrow> int \<times> nat \<times> int \<Rightarrow> int \<times> nat \<times> int \<Rightarrow> int \<times> nat \<times> int" where
  "closest x c c' =
     (if distance x c' < distance x c
         \<or> (distance x c' = distance x c \<and> even (snd (snd c')) \<and> odd (snd (snd c)))
      then c' else c)"

definition shortest_digits :: "real \<Rightarrow> (int \<times> nat \<times> int) option" where
  "shortest_digits x =
     (let n0 = ilog 10 x + 1
      in case first_nonempty
                (map (\<lambda>k. candidates x k n0 @ candidates x k (n0 + 1)) [1..<18]) of
           [] \<Rightarrow> None
         | c # cs \<Rightarrow> Some (foldl (closest x) c cs))"

text \<open>
  The layout of the digits: plain decimal notation for \<open>-6 < n \<le> 21\<close>, exponent
  notation otherwise.
\<close>

definition format_digits :: "int \<Rightarrow> nat \<Rightarrow> string \<Rightarrow> string" where
  "format_digits n k ds =
     (if int k \<le> n \<and> n \<le> 21 then ds @ replicate (nat (n - int k)) (CHR ''0'')
      else if 0 < n \<and> n \<le> 21 then take (nat n) ds @ ''.'' @ drop (nat n) ds
      else if - 6 < n \<and> n \<le> 0 then ''0.'' @ replicate (nat (- n)) (CHR ''0'') @ ds
      else
        let e = n - 1;
            sign = (if e < 0 then ''-'' else ''+'');
            ex = nat_to_digits (nat \<bar>e\<bar>)
        in if k = 1 then ds @ ''e'' @ sign @ ex
           else take 1 ds @ ''.'' @ drop 1 ds @ ''e'' @ sign @ ex)"

definition positive_toString :: "real \<Rightarrow> string" where
  "positive_toString x =
     (case shortest_digits x of
        None \<Rightarrow> []
      | Some (n, k, s) \<Rightarrow> format_digits n k (nat_to_digits (nat s)))"

fun Number_toString :: "number \<Rightarrow> string" where
  "Number_toString NaN = ''NaN''"
| "Number_toString PosInfinity = ''Infinity''"
| "Number_toString NegInfinity = ''-Infinity''"
| "Number_toString (Finite x) =
     (if x = 0 then ''0''
      else if x < 0 then ''-'' @ positive_toString (- x)
      else positive_toString x)"

section \<open>oddsUtils.js: the odds ladder\<close>

text \<open>Step size for the odds ladder (0.25%).\<close>

definition ODDS_LADDER_STEP_SIZE :: int where
  "ODDS_LADDER_STEP_SIZE = 25"

text \<open>
  The remainder \<^verbatim>\<open>%\<close> of two BigInts, which pairs with the truncating division: it has
  the sign of the dividend. A zero divisor throws a RangeError.
\<close>

definition bigint_rem :: "int \<Rightarrow> int \<Rightarrow> error + int" where
  "bigint_rem a b =
     (if b = 0 then Inl RangeError else Inr (a - b * (sgn a * sgn b * (\<bar>a\<bar> div \<bar>b\<bar>))))"

text \<open>
  \<^verbatim>\<open>checkOddsLadderValid(odds)\<close>; \<open>odds\<close> is the integer that \<^verbatim>\<open>ethers.toBigInt\<close> reads
  from the argument.
\<close>

definition checkOddsLadderValid :: "int \<Rightarrow> error + bool" where
  "checkOddsLadderValid odds =
     (let oddsBI = odds
      in case parseUnits ''1'' 16 of
           Inl e \<Rightarrow> Inl e
         | Inr one \<Rightarrow>
             let stepSize = one * ODDS_LADDER_STEP_SIZE
             in (case bigint_rem oddsBI stepSize of
                   Inl e \<Rightarrow> Inl e
                 | Inr r \<Rightarrow> Inr (r = 0)))"


text \<open>
  \<^verbatim>\<open>roundToNearestStep(impliedOdds)\<close>. The literal \<open>0.25\<close> is a double. The result is
  the integer whose decimal string the function returns.
\<close>

definition roundToNearestStep :: "number \<Rightarrow> error + int" where
  "roundToNearestStep impliedOdds =
     (let percentage = js_mul impliedOdds (Finite 100);
          roundedPercentage =
            js_mul (Math_round (js_div percentage (Finite (1 / 4)))) (Finite (1 / 4));
          roundedImplied = js_div roundedPercentage (Finite 100)
      in parseUnits (Number_toString roundedImplied) 20)"

section \<open>orderFetcher.js and utils.js: orders as the API returns them\<close>

text \<open>
  Hashes, addresses and signatures are the hexadecimal strings of the JSON. The fields
  that carry an integer as a decimal string (and \<open>expiry\<close>, a JSON number) are
  modelled by the integer they spell, so that \<^verbatim>\<open>toString()\<close> on them is the identity.

  The nine fields of an order that the exchange hashes and that a fill signs:
\<close>

record order_fields =
  marketHash :: string
  baseToken :: string
  totalBetSize :: int
  percentageOdds :: int
  expiry :: int
  salt :: int
  maker :: string
  executor :: string
  isMakerBettingOutcomeOne :: bool

text \<open>An order object as the API returns it.\<close>

record order = order_fields +
  orderHash :: string
  fillAmount :: int
  signature :: string
  createdAt :: string

text \<open>
  \<^verbatim>\<open>groupOrdersByOutcome\<close>: the \<^verbatim>\<open>reduce\<close> over the orders is a left fold; the object it
  builds is a map from the keys 1 and 2 to arrays.
\<close>

definition groupOrdersByOutcome :: "order list \<Rightarrow> (nat \<rightharpoonup> order list)" where
  "groupOrdersByOutcome orders =
     foldl (\<lambda>grouped order.
              let outcome = (if isMakerBettingOutcomeOne order then 2 else 1);
                  grouped' = (if grouped outcome = None then grouped(outcome \<mapsto> []) else grouped)
              in grouped'(outcome \<mapsto> the (grouped' outcome) @ [order]))
       Map.empty orders"

text \<open>
  \<^verbatim>\<open>formatOrderForTaker\<close>. The record keeps the fields that are values of the order;
  the four display strings (\<^verbatim>\<open>toFixed\<close>, \<^verbatim>\<open>toLocaleString\<close>) are left out.
\<close>

record formatted_order =
  orderHash :: string
  outcome :: nat
  impliedOdds :: number

definition formatOrderForTaker :: "order \<Rightarrow> formatted_order" where
  "formatOrderForTaker order =
     (let takerImpliedOdds = calculateTakerImpliedOdds (percentageOdds order)
      in \<lparr> formatted_order.orderHash = order.orderHash order,
           outcome = (if isMakerBettingOutcomeOne order then 2 else 1),
           impliedOdds = takerImpliedOdds \<rparr>)"

text \<open>
  For stating and proving properties of the grouping: the orders filed under a key
  (a key that is absent has none), the key of an order, and the step of the fold.
\<close>

definition group_of :: "(nat \<rightharpoonup> order list) \<Rightarrow> nat \<Rightarrow> order list" where
  "group_of grouped k = (case grouped k of None \<Rightarrow> [] | Some os \<Rightarrow> os)"

definition taker_outcome :: "order \<Rightarrow> nat" where
  "taker_outcome x = (if isMakerBettingOutcomeOne x then 2 else 1)"

definition group_step :: "(nat \<rightharpoonup> order list) \<Rightarrow> order \<Rightarrow> (nat \<rightharpoonup> order list)" where
  "group_step grouped x =
     (let k = (if isMakerBettingOutcomeOne x then 2 else 1);
          grouped' = (if grouped k = None then grouped(k \<mapsto> []) else grouped)
      in grouped'(k \<mapsto> the (grouped' k) @ [x]))"

section \<open>Bytes and the world outside\<close>

type_synonym byte = "8 word"

text \<open>The lower-case hexadecimal digits of a byte string, and its big-endian value.\<close>

definition hex_digit :: "nat \<Rightarrow> char" where
  "hex_digit n = ''0123456789abcdef'' ! n"

definition hex_of_bytes :: "byte list \<Rightarrow> string" where
  "hex_of_bytes bs = concat (map (\<lambda>b. [hex_digit (unat b div 16), hex_digit (unat b mod 16)]) bs)"

definition bytes_to_nat :: "byte list \<Rightarrow> nat" where
  "bytes_to_nat bs = foldl (\<lambda>acc b. 256 * acc + unat b) 0 bs"

section \<open>orderFiller.js: the fill payload\<close>

definition SX_BET_API_URL :: string where
  "SX_BET_API_URL = ''https://api.sx.bet''"

definition EIP712_FILL_HASHER :: string where
  "EIP712_FILL_HASHER = ''0x845a2Da2D70fEDe8474b1C8518200798c60aC364''"

definition CHAIN_ID :: nat where
  "CHAIN_ID = 4162"

definition DOMAIN_VERSION :: string where
  "DOMAIN_VERSION = ''6.0''"

text \<open>\<^verbatim>\<open>ethers.ZeroAddress\<close> and \<^verbatim>\<open>ethers.ZeroHash\<close>.\<close>

definition ZeroAddress :: string where
  "ZeroAddress = ''0x0000000000000000000000000000000000000000''"

definition ZeroHash :: string where
  "ZeroHash = ''0x0000000000000000000000000000000000000000000000000000000000000000''"

text \<open>
  The six placeholder fields occur both in the signed message and in the body sent to
  the API; the two objects are records that extend \<open>placeholders\<close>.
\<close>

record placeholders =
  action :: string
  market :: string
  betting :: string
  stake :: string
  odds :: string
  returning :: string

record fill_object =
  makerSigs :: "string list"
  orders :: "order_fields list"
  takerAmounts :: "int list"
  fillSalt :: int
  beneficiary :: string
  beneficiaryType :: nat
  cashOutTarget :: string

record details = placeholders +
  fills :: fill_object

record fill_domain =
  name :: string
  version :: string
  chainId :: nat
  verifyingContract :: string

text \<open>An EIP-712 type table: each struct name with its fields, as (name, type) pairs.\<close>

type_synonym eip712_types = "(string \<times> (string \<times> string) list) list"

record fill_payload =
  types :: eip712_types
  primaryType :: string
  domain :: fill_domain
  message :: details

record fill_api_payload = placeholders +
  orderHashes :: "string list"
  takerAmounts :: "int list"
  taker :: string
  takerSig :: string
  fillSalt :: int

text \<open>
  \<^verbatim>\<open>createFillOrderPayload(orders, takerAmounts, taker)\<close>. The 32 bytes that
  \<^verbatim>\<open>randomBytes(32)\<close> returns are a further argument; \<open>fillSalt\<close> is their value, which
  the code carries as a decimal string.
\<close>

definition createFillOrderPayload ::
    "byte list \<Rightarrow> order list \<Rightarrow> int list \<Rightarrow> string \<Rightarrow> fill_payload \<times> int" where
  "createFillOrderPayload = (\<lambda>randomBytes32 orders takerAmounts taker.
     let fillSalt = int (bytes_to_nat randomBytes32);
         payload = \<lparr>
           types = [
             (''Details'', [
               (''action'', ''string''),
               (''market'', ''string''),
               (''betting'', ''string''),
               (''stake'', ''string''),
               (''odds'', ''string''),
               (''returning'', ''string''),
               (''fills'', ''FillObject'')]),
             (''FillObject'', [
               (''orders'', ''Order[]''),
               (''makerSigs'', ''bytes[]''),
               (''takerAmounts'', ''uint256[]''),
               (''fillSalt'', ''uint256''),
               (''beneficiary'', ''address''),
               (''beneficiaryType'', ''uint8''),
               (''cashOutTarget'', ''bytes32'')]),
             (''Order'', [
               (''marketHash'', ''bytes32''),
               (''baseToken'', ''address''),
               (''totalBetSize'', ''uint256''),
               (''percentageOdds'', ''uint256''),
               (''expiry'', ''uint256''),
               (''salt'', ''uint256''),
               (''maker'', ''address''),
               (''executor'', ''address''),
               (''isMakerBettingOutcomeOne'', ''bool'')])],
           primaryType = ''Details'',
           domain = \<lparr>
             name = ''SX Bet'',
             version = DOMAIN_VERSION,
             chainId = CHAIN_ID,
             verifyingContract = EIP712_FILL_HASHER \<rparr>,
           message = \<lparr>
             action = ''N/A'',
             market = ''N/A'',
             betting = ''N/A'',
             stake = ''N/A'',
             odds = ''N/A'',
             returning = ''N/A'',
             fills = \<lparr>
               makerSigs = map (\<lambda>order. signature order) orders,
               orders = map (\<lambda>order. \<lparr>
                   marketHash = marketHash order,
                   baseToken = baseToken order,
                   totalBetSize = totalBetSize order,
                   percentageOdds = percentageOdds order,
                   expiry = expiry order,
                   salt = salt order,
                   maker = maker order,
                   executor = executor order,
                   isMakerBettingOutcomeOne = isMakerBettingOutcomeOne order \<rparr>) orders,
               fill_object.takerAmounts = takerAmounts,
               fill_object.fillSalt = fillSalt,
               beneficiary = ZeroAddress,
               beneficiaryType = 0,
               cashOutTarget = ZeroHash \<rparr> \<rparr> \<rparr>
     in (payload, fillSalt))"

section \<open>orderCanceller.js: the cancellation payload\<close>

definition DOMAIN_NAME :: string where
  "DOMAIN_NAME = ''CancelOrderV2SportX''"

definition CANCEL_DOMAIN_VERSION :: string where
  "CANCEL_DOMAIN_VERSION = ''1.0''"

definition CHAIN_VERSION :: string where
  "CHAIN_VERSION = ''SXR''"

definition MAKER :: string where
  "MAKER = ''0xa6fa134f76496300419E6dbee487239F09d247aE''"

definition CANCEL_API_ENDPOINT :: string where
  "CANCEL_API_ENDPOINT = ''https://api.sx.bet/orders/cancel/v2''"

record cancel_domain =
  name :: string
  version :: string
  chainId :: nat
  salt :: string

record cancel_message =
  orderHashes :: "string list"
  timestamp :: nat

record cancel_payload =
  types :: eip712_types
  primaryType :: string
  domain :: cancel_domain
  message :: cancel_message

record cancel_api_payload =
  signature :: string
  orderHashes :: "string list"
  salt :: string
  maker :: string
  timestamp :: nat

definition getCancelOrderEIP712Payload :: "string list \<Rightarrow> string \<Rightarrow> nat \<Rightarrow> cancel_payload" where
  "getCancelOrderEIP712Payload = (\<lambda>orderHashes salt timestamp.
     let payload = \<lparr>
           types = [
             (''EIP712Domain'', [
               (''name'', ''string''),
               (''version'', ''string''),
               (''chainId'', ''uint256''),
               (''salt'', ''bytes32'')]),
             (''Details'', [
               (''orderHashes'', ''string[]''),
               (''timestamp'', ''uint256'')])],
           primaryType = ''Details'',
           domain = \<lparr>
             name = DOMAIN_NAME,
             version = CANCEL_DOMAIN_VERSION,
             chainId = CHAIN_ID,
             salt = salt \<rparr>,
           message = \<lparr>
             cancel_message.orderHashes = orderHashes,
             cancel_message.timestamp = timestamp \<rparr> \<rparr>
     in payload)"

section \<open>orderPoster.js: the order and its hash\<close>




text \<open>
  The order that \<open>postOrder\<close> builds has the nine hashed fields and \<open>apiExpiry\<close>; the
  order it sends has the signature too. The salt, a hexadecimal string in the code, is
  modelled by its value.
\<close>

record new_order = order_fields +
  apiExpiry :: int

record signed_order = new_order +
  signature :: string











section \<open>Signing and sending\<close>

text \<open>
  What the functions do to the world outside, in the order they do it: they draw 32
  random bytes, ask a signer for a signature (the event records the data handed to
  the signer, whether or not the signer then fails), and send a request (the event
  records the URL and the body).
\<close>

datatype effect =
    RandomBytes
  | SignFill fill_payload
  | SignCancel cancel_payload
  | SignMessage "byte list"
  | PostFill string fill_api_payload
  | PostCancel string cancel_api_payload
  | PostOrder string "signed_order list"

text \<open>The answer of the fill endpoint, \<^verbatim>\<open>await response.json()\<close>.\<close>

record fill_result =
  status :: string
  data :: string

text \<open>
  The world outside: the environment variable, the random source, the clock, the hash
  function Keccak-256, the signing libraries (\<^verbatim>\<open>new ethers.Wallet(key)\<close> with
  \<^verbatim>\<open>wallet.signTypedData\<close> and \<^verbatim>\<open>wallet.signMessage\<close>; \<^verbatim>\<open>signTypedData\<close> of eth-sig-util)
  and the three endpoints. Signers and endpoints may throw.
\<close>

record env =
  PRIVATE_KEY :: "string option"
  randomBytes32 :: "byte list"
  Date_now :: nat
  keccak256 :: "byte list \<Rightarrow> byte list"
  new_Wallet :: "string \<Rightarrow> error + string"
  wallet_signTypedData :: "string \<Rightarrow> fill_payload \<Rightarrow> error + string"
  signTypedData_V4 :: "string \<Rightarrow> cancel_payload \<Rightarrow> error + string"
  wallet_signMessage :: "string \<Rightarrow> byte list \<Rightarrow> error + string"
  fetch_fill :: "string \<Rightarrow> fill_api_payload \<Rightarrow> error + fill_result"
  fetch_cancel :: "string \<Rightarrow> cancel_api_payload \<Rightarrow> error + string"
  fetch_order :: "string \<Rightarrow> signed_order list \<Rightarrow> error + string"

text \<open>
  \<^verbatim>\<open>fillOrder(orders, takerAmounts)\<close>. The \<^verbatim>\<open>catch\<close> block logs the error and throws it
  again, so every failure is returned as it arose. The message of the last error
  carries the JSON of the answer in the code; the model keeps its fixed part.
\<close>

definition fillOrder :: "env \<Rightarrow> order list \<Rightarrow> int list \<Rightarrow> effect list \<times> (error + string)" where
  "fillOrder = (\<lambda>env orders takerAmounts.
     case PRIVATE_KEY env of
       None \<Rightarrow> ([], Inl (Error ''Private key is not set in .env file''))
     | Some privateKey \<Rightarrow>
         if privateKey = [] then ([], Inl (Error ''Private key is not set in .env file''))
         else
           let taker' = ''0xa6fa134f76496300419E6dbee487239F09d247aE''
           in case new_Wallet env privateKey of
                Inl e \<Rightarrow> ([], Inl e)
              | Inr wallet \<Rightarrow>
                  let (payload, fillSalt') =
                        createFillOrderPayload (randomBytes32 env) orders takerAmounts taker'
                  in case wallet_signTypedData env wallet payload of
                       Inl e \<Rightarrow> ([RandomBytes, SignFill payload], Inl e)
                     | Inr signature' \<Rightarrow>
                         let apiPayload = \<lparr>
                               action = ''N/A'',
                               market = ''N/A'',
                               betting = ''N/A'',
                               stake = ''N/A'',
                               odds = ''N/A'',
                               returning = ''N/A'',
                               fill_api_payload.orderHashes = map (\<lambda>order. order.orderHash order) orders,
                               fill_api_payload.takerAmounts = takerAmounts,
                               taker = taker',
                               takerSig = signature',
                               fill_api_payload.fillSalt = fillSalt' \<rparr>;
                             url = SX_BET_API_URL @ ''/orders/fill''
                         in case fetch_fill env url apiPayload of
                              Inl e \<Rightarrow>
                                ([RandomBytes, SignFill payload, PostFill url apiPayload], Inl e)
                            | Inr result \<Rightarrow>
                                ([RandomBytes, SignFill payload, PostFill url apiPayload],
                                 if status result \<noteq> ''success'' then Inl (Error ''Fill failed'')
                                 else Inr (data result)))"

text \<open>
  \<^verbatim>\<open>cancelOrders(orderHashes)\<close>. A local name that is also the name of a record field
  carries a prime in the model (here and in \<open>fillOrder\<close>).
\<close>

definition cancelOrders :: "env \<Rightarrow> string list \<Rightarrow> effect list \<times> (error + string)" where
  "cancelOrders = (\<lambda>env orderHashes.
     case PRIVATE_KEY env of
       None \<Rightarrow> ([], Inl (Error ''PRIVATE_KEY not found in .env file''))
     | Some privateKey \<Rightarrow>
         if privateKey = [] then ([], Inl (Error ''PRIVATE_KEY not found in .env file''))
         else
           let bufferPrivateKey =
                 (if take 2 privateKey = ''0x'' then drop 2 privateKey else privateKey);
               salt' = ''0x'' @ hex_of_bytes (randomBytes32 env);
               timestamp' = Date_now env div 1000;
               payload = getCancelOrderEIP712Payload orderHashes salt' timestamp'
           in case signTypedData_V4 env bufferPrivateKey payload of
                Inl e \<Rightarrow> ([RandomBytes, SignCancel payload], Inl e)
              | Inr signature' \<Rightarrow>
                  let apiPayload = \<lparr>
                        cancel_api_payload.signature = signature',
                        orderHashes = orderHashes,
                        salt = salt',
                        maker = MAKER,
                        timestamp = timestamp' \<rparr>;
                      queryParams = (if CHAIN_VERSION \<noteq> [] then ''?chainVersion='' @ CHAIN_VERSION else []);
                      url = CANCEL_API_ENDPOINT @ queryParams
                  in case fetch_cancel env url apiPayload of
                       Inl e \<Rightarrow> ([RandomBytes, SignCancel payload, PostCancel url apiPayload], Inl e)
                     | Inr data' \<Rightarrow>
                         ([RandomBytes, SignCancel payload, PostCancel url apiPayload], Inr data'))"


section \<open>An example environment\<close>

text \<open>
  A world in which everything succeeds: a key is set, the random bytes spell 7, the
  signers return a fixed signature and the endpoints answer; in the place of
  Keccak-256 stands the identity, so that a hash shows the bytes that were hashed.
  The concrete instances of the theorems below are computed in it. \<open>order1\<close> is an
  order of the API; \<open>packed1\<close> is the packed form of an order on the market
  \<open>marketHash1\<close>, 2.5 USDC at implied odds 0.5 on outcome one, with the salt 7.
\<close>

definition env0 :: env where
  "env0 = \<lparr>
     PRIVATE_KEY = Some ''0x01'',
     randomBytes32 = replicate 31 0 @ [7],
     Date_now = 1700000000123,
     keccak256 = (\<lambda>bytes. bytes),
     new_Wallet = (\<lambda>key. Inr key),
     wallet_signTypedData = (\<lambda>wallet payload. Inr ''0x5167''),
     signTypedData_V4 = (\<lambda>key payload. Inr ''0x5167''),
     wallet_signMessage = (\<lambda>wallet message. Inr ''0x5167''),
     fetch_fill = (\<lambda>url body. Inr \<lparr> status = ''success'', data = ''0xf111'' \<rparr>),
     fetch_cancel = (\<lambda>url body. Inr ''cancelled''),
     fetch_order = (\<lambda>url body. Inr ''posted'') \<rparr>"

definition order1 :: order where
  "order1 = \<lparr>
     marketHash = ''0x0a'',
     baseToken = ''0x6629Ce1Cf35Cc1329ebB4F63202F3f197b3F050B'',
     totalBetSize = 100000000,
     percentageOdds = 50250000000000000000,
     expiry = 2209006800,
     order_fields.salt = 12345,
     order_fields.maker = ''0xa6fa134f76496300419E6dbee487239F09d247aE'',
     executor = ''0x52adf738AAD93c31f798a30b2C74D658e1E9a562'',
     isMakerBettingOutcomeOne = True,
     order.orderHash = ''0x0b'',
     fillAmount = 0,
     order.signature = ''0x0c'',
     createdAt = ''2025-01-01T00:00:00.000Z'' \<rparr>"



section \<open>Properties of the fill amount\<close>

lemma replicate_numeral: "replicate (numeral k) x = x # replicate (pred_numeral k) x"
  by (simp add: numeral_eq_Suc)

lemmas parseUnits_eval = is_digit_def digits_to_nat_def digit_val_def replicate_numeral

lemma parseUnits_10: "parseUnits ''10'' 6 = Inr 10000000"
  unfolding parseUnits_def Let_def by (simp add: parseUnits_eval)

lemma parseUnits_minus_2_5: "parseUnits ''-2.5'' 6 = Inr (- 2500000)"
  unfolding parseUnits_def Let_def by (simp add: parseUnits_eval)

text \<open>
  What "truncating toward zero" means for a positive divisor: the magnitude of the
  quotient is the floor of the magnitudes' quotient, and the quotient never has the
  opposite sign of the dividend.
\<close>

lemma bigint_div_trunc:
  assumes "0 < d"
  shows "\<exists>q. bigint_div n d = Inr q \<and> \<bar>q\<bar> * d \<le> \<bar>n\<bar> \<and> \<bar>n\<bar> < (\<bar>q\<bar> + 1) * d
           \<and> (0 \<le> n \<longrightarrow> 0 \<le> q) \<and> (n \<le> 0 \<longrightarrow> q \<le> 0)"
proof -
  define m where "m = \<bar>n\<bar> div d"
  define q where "q = sgn n * m"
  have m0: "0 \<le> m" using assms by (simp add: m_def pos_imp_zdiv_nonneg_iff)
  have res: "bigint_div n d = Inr q"
    using assms by (simp add: bigint_div_def q_def m_def)
  have absq: "\<bar>q\<bar> = m"
  proof (cases "n = 0")
    case True then show ?thesis by (simp add: q_def m_def)
  next
    case False
    then have "\<bar>sgn n\<bar> = 1" by (simp add: abs_sgn_eq)
    then show ?thesis using m0 by (simp add: q_def abs_mult)
  qed
  have split: "\<bar>n\<bar> = m * d + \<bar>n\<bar> mod d" by (simp add: m_def)
  have r0: "0 \<le> \<bar>n\<bar> mod d" and r1: "\<bar>n\<bar> mod d < d" using assms by simp_all
  have lo: "m * d \<le> \<bar>n\<bar>" using split r0 by linarith
  have expand: "(m + 1) * d = m * d + d" by (simp add: algebra_simps)
  have hi: "\<bar>n\<bar> < (m + 1) * d" using split r1 expand by linarith
  have s1: "0 \<le> n \<longrightarrow> 0 \<le> q" using m0 by (simp add: q_def sgn_if)
  have s2: "n \<le> 0 \<longrightarrow> q \<le> 0" using m0 by (simp add: q_def sgn_if)
  from res lo hi s1 s2 show ?thesis unfolding absq[symmetric] by blast
qed

lemma calculateFillAmount_parsed:
  assumes "parseUnits takerStake 6 = Inr s"
  shows "calculateFillAmount takerStake p = bigint_div (s * p) (10 ^ 20 - p)"
  using assms by (simp add: calculateFillAmount_def)

text \<open>
  C2. For a stake that \<open>parseUnits\<close> scales to \<open>s\<close> smallest units (six decimals) and
  pOdds strictly between 0 and 1e20, \<open>calculateFillAmount\<close> returns the exact integer
  quotient of \<open>s * pOdds\<close> by \<open>1e20 - pOdds\<close> truncated toward zero:
  a \<open>q\<close> with \<open>|q| * d \<le> |s * p| < (|q| + 1) * d\<close> that never has the opposite sign
  of the stake. A stake of 10 currency units at 50% pOdds gives 10 currency units
  (10 * 10^6 smallest units).
\<close>

theorem calculateFillAmount_truncated_quotient:
  assumes "parseUnits takerStake 6 = Inr s"
    and "0 < pOdds" and "pOdds < 10 ^ 20"
  shows "(\<exists>q. calculateFillAmount takerStake pOdds = Inr q
            \<and> \<bar>q\<bar> * (10 ^ 20 - pOdds) \<le> \<bar>s * pOdds\<bar>
            \<and> \<bar>s * pOdds\<bar> < (\<bar>q\<bar> + 1) * (10 ^ 20 - pOdds)
            \<and> (0 \<le> s \<longrightarrow> 0 \<le> q) \<and> (s \<le> 0 \<longrightarrow> q \<le> 0))
       \<and> calculateFillAmount ''10'' (50 * 10 ^ 18) = Inr (10 * 10 ^ 6)"
proof -
  have d: "0 < 10 ^ 20 - pOdds" using assms(3) by simp
  obtain q where q: "bigint_div (s * pOdds) (10 ^ 20 - pOdds) = Inr q"
      "\<bar>q\<bar> * (10 ^ 20 - pOdds) \<le> \<bar>s * pOdds\<bar>"
      "\<bar>s * pOdds\<bar> < (\<bar>q\<bar> + 1) * (10 ^ 20 - pOdds)"
      "0 \<le> s * pOdds \<longrightarrow> 0 \<le> q" "s * pOdds \<le> 0 \<longrightarrow> q \<le> 0"
    using bigint_div_trunc [OF d, of "s * pOdds"] by blast
  have sg1: "0 \<le> s \<longrightarrow> 0 \<le> s * pOdds"
    using assms(2) by simp
  have sg2: "s \<le> 0 \<longrightarrow> s * pOdds \<le> 0"
    using assms(2) by (simp add: mult_le_0_iff)
  have general: "\<exists>q. calculateFillAmount takerStake pOdds = Inr q
            \<and> \<bar>q\<bar> * (10 ^ 20 - pOdds) \<le> \<bar>s * pOdds\<bar>
            \<and> \<bar>s * pOdds\<bar> < (\<bar>q\<bar> + 1) * (10 ^ 20 - pOdds)
            \<and> (0 \<le> s \<longrightarrow> 0 \<le> q) \<and> (s \<le> 0 \<longrightarrow> q \<le> 0)"
    unfolding calculateFillAmount_parsed [OF assms(1)] using q sg1 sg2 by blast
  have example: "calculateFillAmount ''10'' (50 * 10 ^ 18) = Inr (10 * 10 ^ 6)"
    unfolding calculateFillAmount_parsed [OF parseUnits_10] by (simp add: bigint_div_def)
  from general example show ?thesis by blast
qed

theorem calculateFillAmount_truncated_quotient_witness:
  "parseUnits ''-2.5'' 6 = Inr (- 2500000) \<and> (0 :: int) < 3 * 10 ^ 19 \<and> (3 * 10 ^ 19 :: int) < 10 ^ 20
   \<and> calculateFillAmount ''-2.5'' (3 * 10 ^ 19) = Inr (- 1071428)
   \<and> (\<exists>q. calculateFillAmount ''-2.5'' (3 * 10 ^ 19) = Inr q
         \<and> \<bar>q\<bar> * (10 ^ 20 - 3 * 10 ^ 19) \<le> \<bar>- 2500000 * (3 * 10 ^ 19)\<bar>
         \<and> \<bar>- 2500000 * (3 * 10 ^ 19)\<bar> < (\<bar>q\<bar> + 1) * (10 ^ 20 - 3 * 10 ^ 19)
         \<and> q \<le> 0)"
proof -
  have h2: "(0 :: int) < 3 * 10 ^ 19" and h3: "(3 * 10 ^ 19 :: int) < 10 ^ 20" by simp_all
  have v: "calculateFillAmount ''-2.5'' (3 * 10 ^ 19) = Inr (- 1071428)"
    unfolding calculateFillAmount_parsed [OF parseUnits_minus_2_5] by (simp add: bigint_div_def)
  from calculateFillAmount_truncated_quotient [OF parseUnits_minus_2_5 h2 h3]
  have "\<exists>q. calculateFillAmount ''-2.5'' (3 * 10 ^ 19) = Inr q
         \<and> \<bar>q\<bar> * (10 ^ 20 - 3 * 10 ^ 19) \<le> \<bar>- 2500000 * (3 * 10 ^ 19)\<bar>
         \<and> \<bar>- 2500000 * (3 * 10 ^ 19)\<bar> < (\<bar>q\<bar> + 1) * (10 ^ 20 - 3 * 10 ^ 19)
         \<and> q \<le> 0"
    by auto
  with parseUnits_minus_2_5 h2 h3 v show ?thesis by blast
qed

text \<open>
  C9. When the stake parses, the only way \<open>calculateFillAmount\<close> fails is the BigInt
  division by zero: for pOdds strictly between 0 and 1e20 the denominator
  \<open>1e20 - pOdds\<close> is strictly positive and a value is returned; at pOdds of
  exactly 1e20 the division throws (RangeError). The function has no check of its own:
  any other pOdds, inside the documented range or not, yield a value.
\<close>

theorem calculateFillAmount_denominator:
  assumes "parseUnits takerStake 6 = Inr s"
  shows "(0 < pOdds \<and> pOdds < 10 ^ 20 \<longrightarrow>
            0 < 10 ^ 20 - pOdds
            \<and> (\<exists>q. calculateFillAmount takerStake pOdds = Inr q))
       \<and> calculateFillAmount takerStake (10 ^ 20) = Inl RangeError
       \<and> (calculateFillAmount takerStake pOdds = Inl RangeError
            \<longleftrightarrow> pOdds = 10 ^ 20)
       \<and> (pOdds \<noteq> 10 ^ 20 \<longrightarrow>
            (\<exists>q. calculateFillAmount takerStake pOdds = Inr q))"
  unfolding calculateFillAmount_parsed [OF assms]
  by (auto simp add: bigint_div_def)

theorem calculateFillAmount_denominator_witness:
  "parseUnits ''10'' 6 = Inr 10000000
   \<and> (0 :: int) < 10 ^ 20 - 25 * 10 ^ 18
   \<and> calculateFillAmount ''10'' (25 * 10 ^ 18) = Inr 3333333
   \<and> calculateFillAmount ''10'' (10 ^ 20) = Inl RangeError
   \<and> calculateFillAmount ''10'' (2 * 10 ^ 20) = Inr (- 20000000)"
proof -
  have v1: "calculateFillAmount ''10'' (25 * 10 ^ 18) = Inr 3333333"
    unfolding calculateFillAmount_parsed [OF parseUnits_10] by (simp add: bigint_div_def)
  have v2: "calculateFillAmount ''10'' (2 * 10 ^ 20) = Inr (- 20000000)"
    unfolding calculateFillAmount_parsed [OF parseUnits_10] by (simp add: bigint_div_def)
  from calculateFillAmount_denominator [OF parseUnits_10, of "25 * 10 ^ 18"]
  have "(0 :: int) < 10 ^ 20 - 25 * 10 ^ 18"
    and "calculateFillAmount ''10'' (10 ^ 20) = Inl RangeError"
    by simp_all
  with parseUnits_10 v1 v2 show ?thesis by blast
qed

section \<open>Properties of the number model\<close>

lemmas fl_eval = fl_def ilog_def round_half_even_def bpow_def compute_floorlog Let_def

lemma bpow_powi: "bpow b k = real b powi k"
proof (cases "0 \<le> k")
  case True then show ?thesis by (simp add: bpow_def power_int_def)
next
  case False
  have "inverse (real b) ^ nat (- k) = 1 / real b ^ nat (- k)"
    by (simp add: power_one_over [symmetric] inverse_eq_divide)
  with False show ?thesis by (simp add: bpow_def power_int_def)
qed

lemma bpow_pos: "0 < b \<Longrightarrow> 0 < bpow b k"
  by (simp add: bpow_powi)

lemma bpow_add: "0 < b \<Longrightarrow> bpow b (i + j) = bpow b i * bpow b j"
  by (simp add: bpow_powi power_int_add)

lemma bpow_mono: "1 < b \<Longrightarrow> i \<le> j \<Longrightarrow> bpow b i \<le> bpow b j"
  by (simp add: bpow_powi power_int_increasing)

lemma bpow_strict_mono: "1 < b \<Longrightarrow> i < j \<Longrightarrow> bpow b i < bpow b j"
  by (simp add: bpow_powi power_int_strict_increasing)

lemma bpow_less_iff: "1 < b \<Longrightarrow> bpow b i < bpow b j \<longleftrightarrow> i < j"
  using bpow_strict_mono [of b i j] bpow_mono [of b j i] by (cases "i < j") auto

lemma bpow_le_iff: "1 < b \<Longrightarrow> bpow b i \<le> bpow b j \<longleftrightarrow> i \<le> j"
  using bpow_strict_mono [of b j i] bpow_mono [of b i j] by (cases "i \<le> j") auto

lemma bpow_nat: "0 \<le> k \<Longrightarrow> bpow b k = real b ^ nat k"
  by (simp add: bpow_def)

lemma bpow_neg: "k \<le> 0 \<Longrightarrow> bpow b k = 1 / real b ^ nat (- k)"
  by (cases "k = 0") (simp_all add: bpow_def)

lemma ilog_bounds:
  assumes "0 < x" and b: "1 < b"
  shows "bpow b (ilog b x) \<le> x" and "x < bpow b (ilog b x + 1)"
proof -
  have "bpow b (ilog b x) \<le> x \<and> x < bpow b (ilog b x + 1)"
  proof (cases "1 \<le> x")
    case True
    define n where "n = nat \<lfloor>x\<rfloor>"
    have n1: "0 < n" using True by (simp add: n_def)
    have nx: "real n \<le> x" using True by (simp add: n_def; linarith)
    have xn: "x < real n + 1" using True by (simp add: n_def; linarith)
    from floorlog_bounds [OF n1 b]
    have bd: "b ^ (floorlog b n - 1) \<le> n" "n < b ^ floorlog b n" by simp_all
    have fpos: "0 < floorlog b n" using n1 b by (simp add: floorlog_def)
    have e: "ilog b x = int (floorlog b n) - 1" using True by (simp add: ilog_def n_def)
    have p1: "bpow b (ilog b x) = real b ^ (floorlog b n - 1)"
      using fpos by (simp add: e bpow_def nat_diff_distrib')
    have p2: "bpow b (ilog b x + 1) = real b ^ floorlog b n"
      by (simp add: e bpow_def)
    have r1: "real b ^ (floorlog b n - 1) \<le> real n"
      using of_nat_mono [OF bd(1), where ?'a = real] by simp
    have lo: "bpow b (ilog b x) \<le> x" unfolding p1 using r1 nx by linarith
    have "n + 1 \<le> b ^ floorlog b n" using bd(2) by simp
    from of_nat_mono [OF this, where ?'a = real]
    have r2: "real n + 1 \<le> real b ^ floorlog b n" by simp
    have hi: "x < bpow b (ilog b x + 1)" unfolding p2 using r2 xn by linarith
    from lo hi show ?thesis by simp
  next
    case False
    define y where "y = 1 / x"
    have y1: "1 < y" using False assms by (simp add: y_def)
    define m where "m = nat (\<lceil>y\<rceil> - 1)"
    have N2: "2 \<le> \<lceil>y\<rceil>" using y1 by linarith
    have m1: "0 < m" using N2 by (simp add: m_def)
    have my: "real m < y" using N2 by (simp add: m_def; linarith)
    have ym: "y \<le> real m + 1" using N2 by (simp add: m_def; linarith)
    from floorlog_bounds [OF m1 b]
    have bd: "b ^ (floorlog b m - 1) \<le> m" "m < b ^ floorlog b m" by simp_all
    have fpos: "0 < floorlog b m" using m1 b by (simp add: floorlog_def)
    have e: "ilog b x = - int (floorlog b m)" using False by (simp add: ilog_def m_def y_def)
    have p1: "bpow b (ilog b x) = 1 / real b ^ floorlog b m"
      using fpos by (simp add: e bpow_def)
    have p2: "bpow b (ilog b x + 1) = 1 / real b ^ (floorlog b m - 1)"
      using fpos by (simp add: e bpow_def nat_diff_distrib')
    have bp: "0 < real b ^ k" for k using b by simp
    have "m + 1 \<le> b ^ floorlog b m" using bd(2) by simp
    from of_nat_mono [OF this, where ?'a = real]
    have "real m + 1 \<le> real b ^ floorlog b m" by simp
    then have "y \<le> real b ^ floorlog b m" using ym by linarith
    then have "1 / real b ^ floorlog b m \<le> x"
      using assms(1) bp [of "floorlog b m"] by (simp add: y_def field_simps)
    then have lo: "bpow b (ilog b x) \<le> x" by (simp add: p1)
    have "real b ^ (floorlog b m - 1) \<le> real m"
      using of_nat_mono [OF bd(1), where ?'a = real] by simp
    then have "real b ^ (floorlog b m - 1) < y" using my by linarith
    then have "x < 1 / real b ^ (floorlog b m - 1)"
      using assms(1) bp [of "floorlog b m - 1"] by (simp add: y_def field_simps)
    then have hi: "x < bpow b (ilog b x + 1)" by (simp add: p2)
    from lo hi show ?thesis by simp
  qed
  then show "bpow b (ilog b x) \<le> x" and "x < bpow b (ilog b x + 1)" by simp_all
qed

lemma ilog_unique:
  assumes "bpow b e \<le> x" and "x < bpow b (e + 1)" and b: "1 < b"
  shows "ilog b x = e"
proof -
  have b0: "0 < b" using b by simp
  have x0: "0 < x" using bpow_pos [OF b0, of e] assms(1) by linarith
  note bd = ilog_bounds [OF x0 b]
  have "bpow b e < bpow b (ilog b x + 1)" using assms(1) bd(2) by linarith
  then have 1: "e < ilog b x + 1" by (simp only: bpow_less_iff [OF b])
  have "bpow b (ilog b x) < bpow b (e + 1)" using assms(2) bd(1) by linarith
  then have 2: "ilog b x < e + 1" by (simp only: bpow_less_iff [OF b])
  from 1 2 show ?thesis by linarith
qed

lemma two: "1 < (2 :: nat)"
  by simp

lemmas bpow_pos2 = bpow_pos [of 2, simplified]
lemmas bpow_less_iff2 = bpow_less_iff [OF two]
lemmas bpow_le_iff2 = bpow_le_iff [OF two]

lemma round_half_even_of_int: "round_half_even (of_int k) = k"
  by (simp add: round_half_even_def)

lemma round_half_even_le:
  assumes "x \<le> of_int k"
  shows "round_half_even x \<le> k"
proof -
  have f: "\<lfloor>x\<rfloor> \<le> k" using assms by (simp add: floor_le_iff) 
  show ?thesis
  proof (cases "x = of_int k")
    case True then show ?thesis by (simp add: round_half_even_of_int)
  next
    case False
    then have "x < of_int k" using assms by simp
    then have "\<lfloor>x\<rfloor> < k" by (simp add: floor_less_iff)
    then show ?thesis by (simp add: round_half_even_def Let_def)
  qed
qed

lemma round_half_even_ge:
  assumes "of_int k \<le> x"
  shows "k \<le> round_half_even x"
proof -
  have "k \<le> \<lfloor>x\<rfloor>" using assms by (simp add: le_floor_iff)
  then show ?thesis by (simp add: round_half_even_def Let_def)
qed

lemma round_half_even_error: "\<bar>of_int (round_half_even x) - x\<bar> \<le> 1 / 2"
proof -
  have "of_int \<lfloor>x\<rfloor> \<le> x" and "x < of_int \<lfloor>x\<rfloor> + 1" by linarith+
  then show ?thesis by (simp add: round_half_even_def Let_def; linarith)
qed

lemma fl_exact:
  assumes "0 < a" and "a < bpow 2 1024"
    and "a / bpow 2 (max (ilog 2 a) (- 1022) - 52) = of_int k"
  shows "fl a = Finite a" and "fl (- a) = Finite (- a)"
proof -
  have u0: "0 < bpow 2 (max (ilog 2 a) (- 1022) - 52)" by (rule bpow_pos2)
  have "of_int k * bpow 2 (max (ilog 2 a) (- 1022) - 52) = a"
    using assms(3) u0 by (simp add: field_simps)
  then have y: "of_int (round_half_even (a / bpow 2 (max (ilog 2 a) (- 1022) - 52)))
                  * bpow 2 (max (ilog 2 a) (- 1022) - 52) = a"
    by (simp only: assms(3) round_half_even_of_int)
  have ab: "\<bar>a\<bar> = a" "\<bar>- a\<bar> = a" using assms(1) by simp_all
  have nz: "a \<noteq> 0" "- a \<noteq> 0" using assms(1) by simp_all
  have lt: "\<not> bpow 2 1024 \<le> a" using assms(2) by simp
  show "fl a = Finite a"
    unfolding fl_def Let_def ab y using nz lt assms(1) by simp
  show "fl (- a) = Finite (- a)"
    unfolding fl_def Let_def ab y using nz lt assms(1) by simp
qed

lemma fl_of_int:
  assumes "\<bar>n\<bar> \<le> 2 ^ 53"
  shows "fl (of_int n) = Finite (of_int n)"
proof (cases "n = 0")
  case True then show ?thesis by (simp add: fl_def)
next
  case False
  define a :: real where "a = of_int \<bar>n\<bar>"
  have a1: "1 \<le> a" using False by (simp add: a_def; linarith)
  have a0: "0 < a" using a1 by linarith
  have a53: "a \<le> 2 ^ 53" using assms unfolding a_def
    by (metis of_int_le_iff of_int_numeral of_int_power)
  note b = ilog_bounds [OF a0 two]
  have "bpow 2 0 < bpow 2 (ilog 2 a + 1)" using a1 b(2) by (simp add: bpow_def)
  then have e0: "0 \<le> ilog 2 a" by (simp only: bpow_less_iff2) 
  have "bpow 2 (ilog 2 a) \<le> bpow 2 53" using a53 b(1) by (simp add: bpow_def)
  then have e53: "ilog 2 a \<le> 53" by (simp only: bpow_le_iff2)
  have amax: "a < bpow 2 1024"
  proof -
    have "bpow 2 53 < bpow 2 1024" by (simp only: bpow_less_iff2; simp)
    moreover have "a \<le> bpow 2 53" using a53 by (simp add: bpow_def)
    ultimately show ?thesis by linarith
  qed
  have m: "max (ilog 2 a) (- 1022) = ilog 2 a" using e0 by simp
  have "\<exists>k. a / bpow 2 (ilog 2 a - 52) = of_int k"
  proof (cases "ilog 2 a \<le> 52")
    case True
    then have "bpow 2 (ilog 2 a - 52) = 1 / 2 ^ nat (52 - ilog 2 a)"
      by (cases "ilog 2 a = 52") (simp_all add: bpow_def)
    then have "a / bpow 2 (ilog 2 a - 52) = of_int (\<bar>n\<bar> * 2 ^ nat (52 - ilog 2 a))"
      by (simp add: a_def)
    then show ?thesis by blast
  next
    case False
    then have e: "ilog 2 a = 53" using e53 by linarith
    have "bpow 2 53 \<le> a" using b(1) by (simp only: e)
    then have a_eq: "a = 2 ^ 53" using a53 by (simp add: bpow_def)
    have "bpow 2 (ilog 2 a - 52) = 2" unfolding e by (simp add: bpow_def)
    then have "a / bpow 2 (ilog 2 a - 52) = a / 2" by (simp only:)
    also have "\<dots> = of_int (2 ^ 52)" unfolding a_eq by simp
    finally show ?thesis by blast
  qed
  then obtain k where k: "a / bpow 2 (max (ilog 2 a) (- 1022) - 52) = of_int k"
    unfolding m by blast
  note ex = fl_exact [OF a0 amax k]
  show ?thesis
  proof (cases "0 < n")
    case True
    then have "of_int n = a" by (simp add: a_def)
    then show ?thesis using ex(1) by simp
  next
    case neg: False
    then have "of_int n = - a" using False by (simp add: a_def)
    then show ?thesis using ex(2) by simp
  qed
qed

lemma parseFloat_exact:
  assumes "\<bar>n\<bar> \<le> 2 ^ 53"
  shows "parseFloat n = Finite (of_int n)"
  using fl_of_int [OF assms] by (simp add: parseFloat_def)

lemma js_sub_exact:
  assumes "0 \<le> t" and "t \<le> 2 ^ 53" and "0 \<le> f" and "f \<le> 2 ^ 53"
  shows "js_sub (Finite (of_int t)) (Finite (of_int f)) = Finite (of_int (t - f))"
proof -
  have "\<bar>t - f\<bar> \<le> 2 ^ 53" using assms by (simp add: abs_le_iff)
  from fl_of_int [OF this] show ?thesis by simp
qed

section \<open>Properties of utils.js\<close>

text \<open>
  C3 (as the code has it). \<open>calculateRemainingTakerSpace\<close> computes with doubles. For
  amounts from 0 to \<open>2^53\<close> (which \<open>parseFloat\<close> reads exactly) it returns 0 when
  \<open>totalBetSize - fillAmount \<le> 0\<close>, and otherwise the value of
  \<open>(totalBetSize - fillAmount) * 1e20 / percentageOdds - (totalBetSize - fillAmount)\<close>
  with the product, the quotient and the difference each rounded to the nearest
  double. For 100, 40 and 25e18 every step is exact and the result is 180.
\<close>

theorem calculateRemainingTakerSpace_double_precision:
  assumes "0 \<le> betSize" and "betSize \<le> 2 ^ 53" and "0 \<le> filled" and "filled \<le> 2 ^ 53"
  shows "calculateRemainingTakerSpace betSize filled pOdds =
           (if betSize - filled \<le> 0 then Finite 0
            else js_sub
                   (js_div (fl (of_int (betSize - filled) * 10 ^ 20)) (fl (of_int pOdds)))
                   (Finite (of_int (betSize - filled))))
         \<and> calculateRemainingTakerSpace 100 40 (25 * 10 ^ 18) = Finite 180"
proof -
  have pt: "parseFloat betSize = Finite (of_int betSize)"
    and pf: "parseFloat filled = Finite (of_int filled)"
    using assms by (simp_all add: parseFloat_exact)
  note sub = js_sub_exact [OF assms]
  have general: "calculateRemainingTakerSpace betSize filled pOdds =
           (if betSize - filled \<le> 0 then Finite 0
            else js_sub
                   (js_div (fl (of_int (betSize - filled) * 10 ^ 20)) (fl (of_int pOdds)))
                   (Finite (of_int (betSize - filled))))"
    unfolding calculateRemainingTakerSpace_def Let_def pt pf sub Math_pow_10_20_def
    by (simp add: parseFloat_def)
  have example: "calculateRemainingTakerSpace 100 40 (25 * 10 ^ 18) = Finite 180"
    by (simp add: calculateRemainingTakerSpace_def parseFloat_def Math_pow_10_20_def fl_eval)
  from general example show ?thesis by blast
qed

theorem calculateRemainingTakerSpace_double_precision_witness:
  "(0 :: int) \<le> 3 \<and> (3 :: int) \<le> 2 ^ 53 \<and> (0 :: int) \<le> 1 \<and> (1 :: int) \<le> 2 ^ 53
   \<and> calculateRemainingTakerSpace 3 1 (4 * 10 ^ 19) = Finite 3
   \<and> calculateRemainingTakerSpace 1 3 (4 * 10 ^ 19) = Finite 0"
proof -
  have h0: "(0 :: int) \<le> 3" and h1: "(3 :: int) \<le> 2 ^ 53"
    and h2: "(0 :: int) \<le> 1" and h3: "(1 :: int) \<le> 2 ^ 53" by simp_all
  have "calculateRemainingTakerSpace 3 1 (4 * 10 ^ 19) = Finite 3"
    using calculateRemainingTakerSpace_double_precision [OF h0 h1 h2 h3, of "4 * 10 ^ 19"]
    by (simp add: fl_eval)
  moreover have "calculateRemainingTakerSpace 1 3 (4 * 10 ^ 19) = Finite 0"
    using calculateRemainingTakerSpace_double_precision [OF h2 h3 h0 h1, of "4 * 10 ^ 19"]
    by simp
  ultimately show ?thesis using h0 h1 h2 h3 by blast
qed

text \<open>
  The claim as the specification states it, with the exact quotient (or the truncated
  integer quotient), fails: for a remaining maker amount of 1 at 30% odds the exact
  value is \<open>7/3\<close> and the truncated one is 2, while the code returns the double
  \<open>5254199565265579 / 2^51\<close> (printed 2.3333333333333335).
\<close>

theorem calculateRemainingTakerSpace_inexact:
  "calculateRemainingTakerSpace 1 0 (3 * 10 ^ 19) = Finite (5254199565265579 / 2251799813685248)
   \<and> calculateRemainingTakerSpace 1 0 (3 * 10 ^ 19)
       \<noteq> Finite ((1 - 0) * 10 ^ 20 / (3 * 10 ^ 19) - (1 - 0))
   \<and> calculateRemainingTakerSpace 1 0 (3 * 10 ^ 19)
       \<noteq> Finite (real_of_int ((1 - 0) * 10 ^ 20 div (3 * 10 ^ 19) - (1 - 0)))"
  by (simp add: calculateRemainingTakerSpace_def parseFloat_def Math_pow_10_20_def fl_eval)




section \<open>Properties of rounding used by the odds ladder\<close>

text \<open>
  Rounding into a bounded range, the rounding error of values below 128, and the
  exactness of quarters: what the steps of \<open>roundToNearestStep\<close> need.
\<close>

lemma fl_bounded:
  assumes "0 < x" and "x \<le> of_int B" and "B < 2 ^ 53"
  shows "\<exists>y. fl x = Finite y \<and> 0 \<le> y \<and> y \<le> of_int B"
proof -
  define e where "e = max (ilog 2 x) (- 1022)"
  define u where "u = bpow 2 (e - 52)"
  define m where "m = round_half_even (x / u)"
  have u0: "0 < u" by (simp add: u_def bpow_pos2)
  note bd = ilog_bounds [OF assms(1) two]
  have B53: "(of_int B :: real) < 2 ^ 53"
    using assms(3) by (metis of_int_less_iff of_int_numeral of_int_power)
  have "bpow 2 (ilog 2 x) < bpow 2 53"
    using bd(1) assms(2) B53 by (simp add: bpow_def)
  then have "ilog 2 x < 53" by (simp only: bpow_less_iff2)
  then have e52: "e \<le> 52" by (simp add: e_def)
  then have u_eq: "u = 1 / 2 ^ nat (52 - e)"
    unfolding u_def by (simp add: bpow_neg)
  have Bu: "of_int B / u = of_int (B * 2 ^ nat (52 - e))"
    by (simp add: u_eq)
  have "x / u \<le> of_int B / u" using assms(2) u0 by (simp add: divide_right_mono)
  then have "x / u \<le> of_int (B * 2 ^ nat (52 - e))" by (simp only: Bu)
  then have m_le: "m \<le> B * 2 ^ nat (52 - e)" unfolding m_def by (rule round_half_even_le)
  have "of_int 0 \<le> x / u" using assms(1) u0 by simp
  then have m0: "0 \<le> m" unfolding m_def by (rule round_half_even_ge)
  have "of_int m \<le> (of_int (B * 2 ^ nat (52 - e)) :: real)" using m_le by (simp only: of_int_le_iff)
  then have "of_int m * u \<le> of_int (B * 2 ^ nat (52 - e)) * u"
    using u0 by (simp add: mult_right_mono)
  also have "\<dots> = of_int B" using Bu u0 by (simp add: field_simps)
  finally have y_le: "of_int m * u \<le> of_int B" .
  have y0: "0 \<le> of_int m * u" using m0 u0 by simp
  have "(2 :: real) ^ 53 < bpow 2 1024" by (simp add: bpow_def)
  then have nov: "\<not> bpow 2 1024 \<le> of_int m * u" using y_le B53 by linarith
  have "fl x = Finite (of_int m * u)"
    using assms(1) nov unfolding fl_def Let_def m_def u_def e_def by simp
  with y0 y_le show ?thesis by blast
qed

lemma fl_error_small:
  assumes "0 < c" and "c < 128"
  shows "\<exists>y. fl c = Finite y \<and> \<bar>y - c\<bar> \<le> 1 / 2 ^ 47"
proof -
  define e where "e = max (ilog 2 c) (- 1022)"
  define u where "u = bpow 2 (e - 52)"
  define m where "m = round_half_even (c / u)"
  have u0: "0 < u" by (simp add: u_def bpow_pos2)
  note bd = ilog_bounds [OF assms(1) two]
  have "bpow 2 (ilog 2 c) < bpow 2 7"
    using bd(1) assms(2) by (simp add: bpow_def)
  then have "ilog 2 c < 7" by (simp only: bpow_less_iff2)
  then have e6: "e - 52 \<le> - 46" by (simp add: e_def)
  have "u \<le> bpow 2 (- 46)" unfolding u_def using e6 by (rule bpow_mono [OF two])
  then have u46: "u \<le> 1 / 2 ^ 46" by (simp add: bpow_def)
  have "\<bar>of_int m - c / u\<bar> \<le> 1 / 2" unfolding m_def by (rule round_half_even_error)
  then have "\<bar>of_int m - c / u\<bar> * u \<le> 1 / 2 * u" using u0 by (simp add: mult_right_mono)
  moreover have "\<bar>of_int m - c / u\<bar> * u = \<bar>of_int m * u - c\<bar>"
  proof -
    have "\<bar>of_int m - c / u\<bar> * u = \<bar>(of_int m - c / u) * u\<bar>"
      using u0 by (simp add: abs_mult)
    also have "(of_int m - c / u) * u = of_int m * u - c"
      using u0 by (simp add: field_simps)
    finally show ?thesis .
  qed
  ultimately have err: "\<bar>of_int m * u - c\<bar> \<le> u / 2" by simp
  then have err47: "\<bar>of_int m * u - c\<bar> \<le> 1 / 2 ^ 47" using u46 by simp
  have "(129 :: real) < bpow 2 1024" by (simp add: bpow_def)
  moreover have "(1 :: real) / 2 ^ 47 \<le> 1" by simp
  with err47 have "of_int m * u \<le> c + 1" by linarith
  moreover note this
  ultimately have nov: "\<not> bpow 2 1024 \<le> of_int m * u" using assms(2) by linarith
  have "fl c = Finite (of_int m * u)"
    using assms(1) nov unfolding fl_def Let_def m_def u_def e_def by simp
  with err47 show ?thesis by blast
qed

lemma fl_quarters:
  assumes "0 < j" and "j \<le> 400"
  shows "fl (of_int j / 4) = Finite (of_int j / 4)"
proof -
  define a :: real where "a = of_int j / 4"
  have a0: "0 < a" using assms(1) by (simp add: a_def)
  have a_lo: "1 / 4 \<le> a" using assms(1) by (simp add: a_def)
  have a_hi: "a \<le> 100" using assms(2) by (simp add: a_def)
  note bd = ilog_bounds [OF a0 two]
  have "bpow 2 (- 2) < bpow 2 (ilog 2 a + 1)" using a_lo bd(2) by (simp add: bpow_def)
  then have e_lo: "- 3 < ilog 2 a" by (simp only: bpow_less_iff2)
  have "bpow 2 (ilog 2 a) < bpow 2 7" using a_hi bd(1) by (simp add: bpow_def)
  then have e_hi: "ilog 2 a < 7" by (simp only: bpow_less_iff2)
  have m: "max (ilog 2 a) (- 1022) = ilog 2 a" using e_lo by simp
  have amax: "a < bpow 2 1024" using a_hi by (simp add: bpow_def)
  have u: "bpow 2 (ilog 2 a - 52) = 1 / 2 ^ nat (52 - ilog 2 a)"
    using e_hi by (simp add: bpow_neg)
  define P :: real where "P = 2 ^ nat (50 - ilog 2 a)"
  have "nat (52 - ilog 2 a) = nat (50 - ilog 2 a) + 2" using e_hi by simp
  then have p: "(2 :: real) ^ nat (52 - ilog 2 a) = P * 4"
    by (simp add: power_add P_def)
  have "a / bpow 2 (ilog 2 a - 52) = a * (P * 4)" unfolding u p by simp
  also have "\<dots> = of_int j * P" unfolding a_def [of] by (simp add: a_def)
  also have "\<dots> = of_int (j * 2 ^ nat (50 - ilog 2 a))" by (simp add: P_def)
  finally have "a / bpow 2 (ilog 2 a - 52) = of_int (j * 2 ^ nat (50 - ilog 2 a))" .
  then have k: "a / bpow 2 (max (ilog 2 a) (- 1022) - 52) = of_int (j * 2 ^ nat (50 - ilog 2 a))"
    by (simp only: m)
  from fl_exact(1) [OF a0 amax k] show ?thesis by (simp add: a_def)
qed

lemma roundToNearestStep_head:
  assumes "0 < q" and "q < 1"
  shows "\<exists>r. js_div (js_mul (Finite q) (Finite 100)) (Finite (1 / 4)) = Finite r
           \<and> 0 \<le> r \<and> r \<le> 400
           \<and> roundToNearestStep (Finite q) =
               parseUnits (Number_toString (fl (of_int \<lfloor>r + 1 / 2\<rfloor> / 400))) 20"
proof -
  have "0 < q * 100" and "q * 100 \<le> of_int 100" using assms by simp_all
  from fl_bounded [OF this]
  obtain p where p: "fl (q * 100) = Finite p" "0 \<le> p" "p \<le> 100" by auto
  have "\<exists>r. fl (p * 4) = Finite r \<and> 0 \<le> r \<and> r \<le> 400"
  proof (cases "p = 0")
    case True
    then show ?thesis by (simp add: fl_def)
  next
    case False
    then have "0 < p * 4" and "p * 4 \<le> of_int 400" using p(2,3) by simp_all
    from fl_bounded [OF this] show ?thesis by auto
  qed
  then obtain r where r: "fl (p * 4) = Finite r" "0 \<le> r" "r \<le> 400" by blast
  define j where "j = \<lfloor>r + 1 / 2\<rfloor>"
  have j0: "0 \<le> j" using r(2) by (simp add: j_def)
  have j400: "j \<le> 400"
  proof -
    have "r + 1 / 2 < 401" using r(3) by simp
    then have "\<lfloor>r + 1 / 2\<rfloor> < 401" by (simp add: floor_less_iff)
    then show ?thesis by (simp add: j_def)
  qed
  have ratio: "js_div (js_mul (Finite q) (Finite 100)) (Finite (1 / 4)) = Finite r"
    by (simp add: p(1) r(1))
  have quarter: "fl (of_int j / 4) = Finite (of_int j / 4)"
  proof (cases "j = 0")
    case True
    then show ?thesis by (simp add: fl_def)
  next
    case False
    then have "0 < j" using j0 by simp
    from fl_quarters [OF this j400] show ?thesis .
  qed
  have "roundToNearestStep (Finite q) =
          parseUnits (Number_toString (fl (of_int j / 4 / 100))) 20"
    unfolding roundToNearestStep_def Let_def ratio
    by (simp add: j_def [symmetric] quarter)
  then have "roundToNearestStep (Finite q) =
          parseUnits (Number_toString (fl (of_int j / 400))) 20"
    by simp
  with ratio r(2,3) show ?thesis unfolding j_def by blast
qed

section \<open>Decimal digits\<close>

lemma is_digit_digit_char: "d < 10 \<Longrightarrow> is_digit (digit_char d)"
proof -
  assume "d < 10"
  then have "d \<in> {0, 1, 2, 3, 4, 5, 6, 7, 8, 9}" by auto
  then show ?thesis by (auto simp add: is_digit_def digit_char_def)
qed

lemma digit_val_digit_char: "d < 10 \<Longrightarrow> digit_val (digit_char d) = d"
proof -
  assume "d < 10"
  then have "d \<in> {0, 1, 2, 3, 4, 5, 6, 7, 8, 9}" by auto
  then show ?thesis by (auto simp add: digit_val_def digit_char_def)
qed

lemma is_digit_zero: "is_digit (CHR ''0'')"
  by (simp add: is_digit_def)

lemma not_is_digit_dot: "\<not> is_digit (CHR ''.'')"
  by (simp add: is_digit_def)

lemma nat_to_digits_all: "list_all is_digit (nat_to_digits n)"
proof (induction n rule: nat_to_digits.induct)
  case (1 n)
  show ?case
  proof (cases "n < 10")
    case True
    then show ?thesis by (simp add: nat_to_digits.simps [of n] is_digit_digit_char)
  next
    case False
    with 1 show ?thesis
      by (simp add: nat_to_digits.simps [of n] is_digit_digit_char)
  qed
qed

lemma digits_to_nat_snoc: "digits_to_nat (xs @ [c]) = 10 * digits_to_nat xs + digit_val c"
  by (simp add: digits_to_nat_def)

lemma digits_to_nat_append:
  "digits_to_nat (xs @ ys) = digits_to_nat xs * 10 ^ length ys + digits_to_nat ys"
proof (induction ys rule: rev_induct)
  case Nil
  then show ?case by (simp add: digits_to_nat_def)
next
  case (snoc y ys)
  have "digits_to_nat (xs @ ys @ [y]) = 10 * digits_to_nat (xs @ ys) + digit_val y"
    using digits_to_nat_snoc [of "xs @ ys" y] by simp
  then show ?case
    by (simp add: snoc.IH digits_to_nat_snoc algebra_simps)
qed

lemma digits_to_nat_zeros: "digits_to_nat (replicate z (CHR ''0'')) = 0"
proof (induction z)
  case 0
  then show ?case by (simp add: digits_to_nat_def)
next
  case (Suc z)
  have "replicate (Suc z) (CHR ''0'') = replicate z (CHR ''0'') @ [CHR ''0'']"
    by (simp add: replicate_append_same)
  then show ?case
    by (simp only: digits_to_nat_snoc Suc.IH) (simp add: digit_val_def)
qed

lemma digits_to_nat_nat_to_digits: "digits_to_nat (nat_to_digits n) = n"
proof (induction n rule: nat_to_digits.induct)
  case (1 n)
  show ?case
  proof (cases "n < 10")
    case True
    then show ?thesis
      by (simp add: nat_to_digits.simps [of n] digits_to_nat_def digit_val_digit_char)
  next
    case False
    with 1 show ?thesis
      by (simp add: nat_to_digits.simps [of n] digits_to_nat_snoc digit_val_digit_char)
  qed
qed

lemma length_nat_to_digits:
  assumes "10 ^ (K - 1) \<le> n" and "n < 10 ^ K" and "1 \<le> K"
  shows "length (nat_to_digits n) = K"
  using assms
proof (induction n arbitrary: K rule: nat_to_digits.induct)
  case (1 n)
  show ?case
  proof (cases "n < 10")
    case True
    have "K = 1"
    proof (rule ccontr)
      assume "K \<noteq> 1"
      with "1.prems"(3) have "2 \<le> K" by simp
      then have "(10 :: nat) ^ 1 \<le> 10 ^ (K - 1)" by (intro power_increasing) simp_all
      with "1.prems"(1) True show False by simp
    qed
    with True show ?thesis by (simp add: nat_to_digits.simps [of n])
  next
    case False
    have K2: "2 \<le> K"
    proof (rule ccontr)
      assume "\<not> 2 \<le> K"
      with "1.prems"(3) have "K = 1" by simp
      with "1.prems"(2) False show False by simp
    qed
    then obtain K' where K': "K = Suc K'" "1 \<le> K'" by (cases K) auto
    have lo: "10 ^ (K' - 1) \<le> n div 10"
    proof -
      have "10 ^ (K' - 1) * 10 \<le> n" using "1.prems"(1) K' by (cases K') simp_all
      then show ?thesis by (simp add: less_eq_div_iff_mult_less_eq)
    qed
    have hi: "n div 10 < 10 ^ K'"
      using "1.prems"(2) K' by (simp add: div_less_iff_less_mult mult.commute)
    from "1.IH" [OF False lo hi K'(2)] False K' show ?thesis
      by (simp add: nat_to_digits.simps [of n])
  qed
qed

lemma digits_to_nat_leading_zeros:
  "digits_to_nat (replicate z (CHR ''0'') @ xs) = digits_to_nat xs"
  by (simp add: digits_to_nat_append digits_to_nat_zeros)

lemma digits_to_nat_trailing_zeros:
  "digits_to_nat (xs @ replicate z (CHR ''0'')) = digits_to_nat xs * 10 ^ z"
  by (simp add: digits_to_nat_append digits_to_nat_zeros)

lemma parseUnits_decimal_fraction:
  assumes "list_all is_digit dec" and "length dec \<le> 20"
    and "digits_to_nat dec * 10 ^ (20 - length dec) < 2 ^ 511"
  shows "parseUnits (CHR ''0'' # CHR ''.'' # dec) 20 =
           Inr (int (digits_to_nat dec * 10 ^ (20 - length dec)))"
proof -
  have tw: "takeWhile is_digit dec = dec" using assms(1) by (simp add: list_all_iff)
  have dw: "dropWhile is_digit dec = []" using assms(1) by (simp add: list_all_iff)
  have whole: "takeWhile is_digit (CHR ''0'' # CHR ''.'' # dec) = [CHR ''0'']"
    by (simp add: is_digit_zero not_is_digit_dot)
  have rest2: "dropWhile is_digit (CHR ''0'' # CHR ''.'' # dec) = CHR ''.'' # dec"
    by (simp add: is_digit_zero not_is_digit_dot)
  have pad: "take 20 (dec @ replicate (20 - length dec) (CHR ''0''))
               = dec @ replicate (20 - length dec) (CHR ''0'')"
    "drop 20 (dec @ replicate (20 - length dec) (CHR ''0'')) = []"
    using assms(2) by simp_all
  have val: "digits_to_nat ([CHR ''0''] @ dec @ replicate (20 - length dec) (CHR ''0''))
               = digits_to_nat dec * 10 ^ (20 - length dec)"
    using digits_to_nat_leading_zeros [of 1 "dec @ replicate (20 - length dec) (CHR ''0'')"]
      digits_to_nat_trailing_zeros [of dec "20 - length dec"]
    by simp
  have rng: "int (digits_to_nat dec * 10 ^ (20 - length dec)) < 2 ^ 511"
    using assms(3) by (metis of_nat_less_iff of_nat_numeral of_nat_power)
  have rng0: "- (2 ^ 511) \<le> int (digits_to_nat dec * 10 ^ (20 - length dec))"
    by (rule order_trans [of _ 0]) simp_all
  show ?thesis
    unfolding parseUnits_def Let_def
    apply (simp only: list.sel whole rest2 tw dw pad val list.simps if_False if_True
        char.inject simp_thms length_Cons list.size)
    using rng rng0 by simp
qed

lemma ten: "1 < (10 :: nat)"
  by simp

lemma bpow10_pos: "0 < bpow 10 k"
  by (rule bpow_pos) simp

lemma bpow10_nat: "bpow 10 (int n) = 10 ^ n"
  by (simp add: bpow_def)

lemma bpow10_shift: "bpow 10 (i + int n) = bpow 10 i * 10 ^ n"
  by (simp add: bpow_add bpow10_nat)

lemma bpow10_minus4: "bpow 10 (- 4) = 1 / 10 ^ 4"
  by (simp add: bpow_def)

lemma first_nonempty_Cons: "xs \<noteq> [] \<Longrightarrow> first_nonempty (xs # xss) = xs"
  by (cases xs) simp_all

lemma first_nonempty_skip:
  assumes "\<forall>x \<in> set xs. f x = []" and "f y \<noteq> []"
  shows "first_nonempty (map f (xs @ y # ys)) = f y"
  using assms by (induction xs) (simp_all add: first_nonempty_Cons)

lemma format_digits_small:
  assumes "1 \<le> K" and "K + t \<le> 4"
  shows "format_digits (int K + int t - 4) K ds =
           CHR ''0'' # CHR ''.'' # (replicate (4 - K - t) (CHR ''0'') @ ds)"
proof -
  have "nat (- (int K + int t - 4)) = 4 - K - t" using assms by simp
  then show ?thesis using assms by (simp add: format_digits_def)
qed

lemma parseUnits_format_digits:
  assumes "10 ^ (K - 1) \<le> S" and "S < 10 ^ K" and "1 \<le> K" and "K + t \<le> 4"
  shows "parseUnits (format_digits (int K + int t - 4) K (nat_to_digits S)) 20 =
           Inr (int S * 10 ^ (16 + t))"
proof -
  define dec where "dec = replicate (4 - K - t) (CHR ''0'') @ nat_to_digits S"
  have len: "length dec = 4 - t"
    using length_nat_to_digits [OF assms(1,2,3)] assms(3,4) by (simp add: dec_def)
  have all: "list_all is_digit dec"
    unfolding dec_def list_all_append
    by (simp add: nat_to_digits_all) (simp add: list_all_iff is_digit_zero)
  have val: "digits_to_nat dec = S"
    by (simp add: dec_def digits_to_nat_leading_zeros digits_to_nat_nat_to_digits)
  have e: "20 - length dec = 16 + t" using assms(3,4) by (simp add: len)
  have "S < 10 ^ 4"
  proof -
    have "(10 :: nat) ^ K \<le> 10 ^ 4" using assms(4) by (intro power_increasing) simp_all
    with assms(2) show ?thesis by linarith
  qed
  moreover have "(10 :: nat) ^ (16 + t) \<le> 10 ^ 20" using assms(3,4) by (intro power_increasing) simp_all
  ultimately have "S * 10 ^ (16 + t) < 10 ^ 4 * 10 ^ 20"
    by (meson mult_less_le_imp_less zero_less_numeral zero_less_power le0)
  also have "\<dots> < (2 :: nat) ^ 511" by simp
  finally have rng: "digits_to_nat dec * 10 ^ (20 - length dec) < 2 ^ 511"
    by (simp only: val e)
  have "length dec \<le> 20" by (simp add: len)
  from parseUnits_decimal_fraction [OF all this rng]
  show ?thesis
    unfolding format_digits_small [OF assms(3,4)] dec_def [symmetric] val e by simp
qed

section \<open>The shortest rendering of a number on the decimal grid\<close>

text \<open>
  If \<open>x\<close> is the double nearest to \<open>S * 10^(t-4)\<close>, a number below 10 with at most
  four decimals whose digits \<open>S\<close> do not end in 0, then the shortest digits that
  render \<open>x\<close> are those of \<open>S\<close>: a decimal with fewer digits lies on the same grid
  of step \<open>10^(t-4)\<close>, and two grid points cannot round to the same double.
\<close>

lemma shortest_digits_grid:
  fixes S :: int and K t :: nat
  assumes x: "fl (of_int S * bpow 10 (int t - 4)) = Finite x"
    and S: "10 ^ (K - 1) \<le> S" "S < 10 ^ K" "S mod 10 \<noteq> 0"
    and K: "1 \<le> K" "K + t \<le> 5"
    and lo: "bpow 10 (int K + int t - 5) \<le> x"
  shows "shortest_digits x = Some (int K + int t - 4, K, S)"
proof -
  define N where "N = int K + int t - 4"
  define g where "g = bpow 10 (int t - 4)"
  define v where "v = of_int S * g"
  have g0: "0 < g" unfolding g_def by (rule bpow10_pos)
  have g_eq: "g = 10 ^ t / 10 ^ 4"
    using bpow10_shift [of "- 4" t] by (simp add: g_def bpow10_minus4)
  have g_lo: "1 / 10 ^ 4 \<le> g" unfolding g_eq by (simp add: divide_right_mono)
  have S1: "1 \<le> S" using S(1) by (smt (verit) one_le_power)
  have v0: "0 < v" using S1 g0 by (simp add: v_def)
  have KN: "bpow 10 N = 10 ^ K * g"
    using bpow10_shift [of "int t - 4" K] by (simp add: N_def g_def algebra_simps)
  have N_le: "N \<le> 1" using K(2) by (simp add: N_def)
  have bN: "bpow 10 (N + 1) \<le> 100"
  proof -
    have "bpow 10 (N + 1) \<le> bpow 10 2" using N_le by (intro bpow_mono [OF ten]) simp
    then show ?thesis by (simp add: bpow_def)
  qed
  have S_le: "of_int S \<le> (10 :: real) ^ K - 1"
  proof -
    have "S \<le> 10 ^ K - 1" using S(2) by simp
    then have "(of_int S :: real) \<le> of_int (10 ^ K - 1)" by (simp only: of_int_le_iff)
    then show ?thesis by simp
  qed
  have v_hi: "v \<le> bpow 10 N - g"
  proof -
    have "of_int S * g \<le> (10 ^ K - 1) * g" using S_le g0 by (simp add: mult_right_mono)
    then show ?thesis by (simp add: v_def KN algebra_simps)
  qed
  have v128: "v < 128"
  proof -
    have "bpow 10 N \<le> bpow 10 (N + 1)" by (intro bpow_mono [OF ten]) simp
    with v_hi g0 bN show ?thesis by linarith
  qed
  have tiny: "(1 :: real) / 2 ^ 46 < 1 / 10 ^ 4" by simp
  have tiny47: "(1 :: real) / 2 ^ 47 < 1 / 10 ^ 4" by simp
  from fl_error_small [OF v0 v128] x
  have err_v: "\<bar>x - v\<bar> \<le> 1 / 2 ^ 47" by (auto simp add: v_def g_def)
  have x0: "0 < x" using lo bpow10_pos [of "int K + int t - 5"] by linarith
  have hi: "x < bpow 10 N" using err_v v_hi g_lo tiny47 by linarith
  have "bpow 10 (N - 1) \<le> x" using lo by (simp add: N_def algebra_simps)
  moreover have "x < bpow 10 (N - 1 + 1)" using hi by simp
  ultimately have "ilog 10 x = N - 1" using ten by (rule ilog_unique)
  then have n0: "ilog 10 x + 1 = N" by simp

  have rt: "k = K \<and> s = S \<and> b = 0"
    if k: "1 \<le> k" "k \<le> K" and b: "b \<le> 1"
      and s: "10 ^ (k - 1) \<le> s" "s < 10 ^ k"
      and r: "roundtrips x s (N + int b - int k)"
    for k :: nat and b :: nat and s :: int
  proof -
    define d where "d = K - k"
    define A where "A = s * 10 ^ (d + b)"
    have e: "N + int b - int k = (int t - 4) + int (d + b)"
      using k by (simp add: N_def d_def)
    have pw: "bpow 10 (N + int b - int k) = g * 10 ^ (d + b)"
      unfolding e g_def by (rule bpow10_shift)
    define c where "c = of_int s * bpow 10 (N + int b - int k)"
    have c_eq: "c = of_int A * g" by (simp add: c_def pw A_def algebra_simps)
    have s1: "1 \<le> s" using s(1) by (smt (verit) one_le_power)
    have c0: "0 < c" unfolding c_def using s1 bpow10_pos [of "N + int b - int k"] by simp
    have c128: "c < 128"
    proof -
      have "of_int s < (10 :: real) ^ k"
      proof -
        have "(of_int s :: real) < of_int (10 ^ k)" using s(2) by (simp only: of_int_less_iff)
        then show ?thesis by simp
      qed
      then have "c < 10 ^ k * bpow 10 (N + int b - int k)"
        unfolding c_def using bpow10_pos [of "N + int b - int k"] by (simp add: mult_strict_right_mono)
      also have "\<dots> = bpow 10 (N + int b)"
        using bpow10_shift [of "N + int b - int k" k] by (simp add: algebra_simps)
      also have "\<dots> \<le> bpow 10 (N + 1)" using b by (intro bpow_mono [OF ten]) simp
      finally show ?thesis using bN by linarith
    qed
    from fl_error_small [OF c0 c128] r
    have err_c: "\<bar>x - c\<bar> \<le> 1 / 2 ^ 47" by (auto simp add: roundtrips_def c_def)
    have h46: "(1 :: real) / 2 ^ 46 = 1 / 2 ^ 47 + 1 / 2 ^ 47" by simp
    have cv: "\<bar>c - v\<bar> \<le> 1 / 2 ^ 46" unfolding h46 using err_c err_v by linarith
    have "c - v = of_int (A - S) * g" by (simp add: c_eq v_def algebra_simps)
    then have "\<bar>c - v\<bar> = \<bar>of_int (A - S)\<bar> * g"
      by (simp only: abs_mult abs_of_pos [OF g0])
    then have close: "\<bar>of_int (A - S)\<bar> * g < 1 / 10 ^ 4"
      using cv tiny by linarith
    have AS: "A = S"
    proof (rule ccontr)
      assume "A \<noteq> S"
      then have "1 \<le> \<bar>A - S\<bar>" by simp
      then have "(1 :: real) \<le> \<bar>of_int (A - S)\<bar>"
        by (metis of_int_abs of_int_1_le_iff)
      then have "g \<le> \<bar>of_int (A - S)\<bar> * g" using g0 by simp
      with close g_lo show False by linarith
    qed
    have db: "d + b = 0"
    proof (rule ccontr)
      assume "d + b \<noteq> 0"
      then obtain m where "d + b = Suc m" by (cases "d + b") simp_all
      then have "S = 10 * (s * 10 ^ m)" using AS by (simp add: A_def)
      then have "S mod 10 = 0" by simp
      with S(3) show False by simp
    qed
    then have "d = 0" and "b = 0" by simp_all
    then have "k = K" using k by (simp add: d_def)
    moreover have "s = S" using AS db by (simp add: A_def)
    ultimately show ?thesis using \<open>b = 0\<close> by simp
  qed

  have no_cand: "candidates x k (N + int b) = []"
    if "1 \<le> k" "k \<le> K" "b \<le> 1" "k \<noteq> K \<or> b \<noteq> 0" for k b :: nat
  proof -
    have "\<not> (10 ^ (k - 1) \<le> s \<and> s < 10 ^ k \<and> roundtrips x s (N + int b - int k))" for s
      using rt [OF that(1,2,3), of s] that(4) by blast
    then show ?thesis by (simp add: candidates_def Let_def)
  qed
  have c1: "candidates x k N = []" if "1 \<le> k" "k < K" for k
    using no_cand [of k 0] that by simp
  have c2: "candidates x k (N + 1) = []" if "1 \<le> k" "k \<le> K" for k
    using no_cand [of k 1] that by simp

  have PS: "10 ^ (K - 1) \<le> S \<and> S < 10 ^ K \<and> roundtrips x S (N - int K)"
    using S(1,2) x by (simp add: roundtrips_def N_def)
  have only: "s = S" if "10 ^ (K - 1) \<le> s \<and> s < 10 ^ K \<and> roundtrips x s (N - int K)" for s
    using rt [of K 0 s] K(1) that by simp
  define f where "f = \<lfloor>x / bpow 10 (N - int K)\<rfloor>"
  have f_cases: "f = S \<or> f + 1 = S"
  proof -
    have gg: "bpow 10 (N - int K) = g" by (simp add: N_def g_def)
    have "x / g - of_int S = (x - v) / g" using g0 by (simp add: v_def field_simps)
    then have "\<bar>x / g - of_int S\<bar> = \<bar>x - v\<bar> / g" using g0 by (simp add: abs_of_pos)
    also have "\<dots> \<le> (1 / 2 ^ 47) / g"
      by (rule divide_right_mono [OF err_v less_imp_le [OF g0]])
    also have "\<dots> \<le> (1 / 2 ^ 47) / (1 / 10 ^ 4)"
      using g_lo by (intro divide_left_mono) simp_all
    also have "\<dots> < 1" by simp
    finally have "\<bar>x / g - of_int S\<bar> < 1" .
    then have "of_int S - 1 < x / g" and "x / g < of_int S + 1" by linarith+
    then have "S - 1 \<le> \<lfloor>x / g\<rfloor>" and "\<lfloor>x / g\<rfloor> < S + 1"
      by linarith+
    then show ?thesis unfolding f_def gg by linarith
  qed
  have filt: "filter (\<lambda>s. 10 ^ (K - 1) \<le> s \<and> s < 10 ^ K \<and> roundtrips x s (N - int K)) [f, f + 1] = [S]"
  proof (cases "f = S")
    case True
    have "\<not> (10 ^ (K - 1) \<le> S + 1 \<and> S + 1 < 10 ^ K \<and> roundtrips x (S + 1) (N - int K))"
      using only [of "S + 1"] by auto
    with True PS show ?thesis by simp
  next
    case False
    with f_cases have fS: "f + 1 = S" by simp
    have "\<not> (10 ^ (K - 1) \<le> f \<and> f < 10 ^ K \<and> roundtrips x f (N - int K))"
      using only [of f] fS by auto
    with fS PS show ?thesis by simp
  qed
  have c3: "candidates x K N = [(N, K, S)]"
    unfolding candidates_def Let_def f_def [symmetric] filt by simp

  define C where "C = (\<lambda>k. candidates x k N @ candidates x k (N + 1))"
  have CK: "C K = [(N, K, S)]" using c3 c2 [of K] K(1) by (simp add: C_def)
  have Ck: "\<forall>k \<in> set [1..<K]. C k = []" using c1 c2 by (simp add: C_def)
  have K18: "K < 18" using K(2) by simp
  have upt: "[1..<18] = [1..<K] @ K # [Suc K..<18]"
  proof -
    have "[1..<K + (18 - K)] = [1..<K] @ [K..<K + (18 - K)]"
      using K(1) by (intro upt_add_eq_append) simp
    moreover have "K + (18 - K) = 18" using K18 by simp
    moreover have "[K..<18] = K # [Suc K..<18]" using K18 by (rule upt_conv_Cons)
    ultimately show ?thesis by simp
  qed
  have "first_nonempty (map C [1..<18]) = C K"
    unfolding upt using Ck CK by (intro first_nonempty_skip) simp_all
  then have "first_nonempty (map C [1..<18]) = [(N, K, S)]" by (simp only: CK)
  then show ?thesis
    unfolding shortest_digits_def Let_def n0 C_def N_def [symmetric] by simp
qed

lemma strip_trailing_zeros:
  fixes m :: nat
  assumes "0 < m" and "m < 10 ^ L"
  shows "\<exists>S t. m = S * 10 ^ t \<and> S mod 10 \<noteq> 0 \<and> 0 < S \<and> t \<le> L \<and> S < 10 ^ (L - t)"
  using assms
proof (induction L arbitrary: m)
  case 0
  then show ?case by simp
next
  case (Suc L)
  show ?case
  proof (cases "m mod 10 = 0")
    case False
    with Suc.prems have "m = m * 10 ^ 0 \<and> m mod 10 \<noteq> 0 \<and> 0 < m \<and> 0 \<le> Suc L \<and> m < 10 ^ (Suc L - 0)"
      by simp
    then show ?thesis by blast
  next
    case True
    define m' where "m' = m div 10"
    have m: "m = 10 * m'" using True unfolding m'_def by presburger
    have "0 < m'" using Suc.prems(1) m by simp
    moreover have "m' < 10 ^ L" using Suc.prems(2) m by simp
    ultimately obtain S t where st: "m' = S * 10 ^ t" "S mod 10 \<noteq> 0" "0 < S" "t \<le> L" "S < 10 ^ (L - t)"
      using Suc.IH by blast
    have "m = S * 10 ^ Suc t \<and> S mod 10 \<noteq> 0 \<and> 0 < S \<and> Suc t \<le> Suc L \<and> S < 10 ^ (Suc L - Suc t)"
      using st m by simp
    then show ?thesis by blast
  qed
qed

lemma count_digits:
  fixes S :: nat
  assumes "0 < S" and "S < 10 ^ L"
  shows "\<exists>K. 1 \<le> K \<and> K \<le> L \<and> 10 ^ (K - 1) \<le> S \<and> S < 10 ^ K"
  using assms
proof (induction L)
  case 0
  then show ?case by simp
next
  case (Suc L)
  show ?case
  proof (cases "S < 10 ^ L")
    case True
    with Suc obtain K where "1 \<le> K" "K \<le> L" "10 ^ (K - 1) \<le> S" "S < 10 ^ K" by blast
    then have "1 \<le> K \<and> K \<le> Suc L \<and> 10 ^ (K - 1) \<le> S \<and> S < 10 ^ K" by simp
    then show ?thesis by blast
  next
    case False
    with Suc.prems have "1 \<le> Suc L \<and> Suc L \<le> Suc L \<and> 10 ^ (Suc L - 1) \<le> S \<and> S < 10 ^ Suc L"
      by simp
    then show ?thesis by blast
  qed
qed

lemma decimal_decomposition:
  fixes m :: nat
  assumes "0 < m" and "m < 10 ^ 4"
  shows "\<exists>S K t. m = S * 10 ^ t \<and> S mod 10 \<noteq> 0 \<and> 10 ^ (K - 1) \<le> S \<and> S < 10 ^ K
           \<and> 1 \<le> K \<and> K + t \<le> 4"
proof -
  from strip_trailing_zeros [OF assms]
  obtain S t where st: "m = S * 10 ^ t" "S mod 10 \<noteq> 0" "0 < S" "t \<le> 4" "S < 10 ^ (4 - t)"
    by blast
  from count_digits [OF st(3,5)]
  obtain K where k: "1 \<le> K" "K \<le> 4 - t" "10 ^ (K - 1) \<le> S" "S < 10 ^ K" by blast
  have "K + t \<le> 4" using k(2) st(4) by simp
  with st k show ?thesis by blast
qed

lemma fl_tenth: "fl (1 / 10) = Finite (3602879701896397 / 36028797018963968)"
  by (simp add: fl_eval)

lemma fl_hundredth: "fl (1 / 100) = Finite (5764607523034235 / 576460752303423488)"
  by (simp add: fl_eval)

lemma parseUnits_0: "parseUnits ''0'' 20 = Inr 0"
  unfolding parseUnits_def Let_def by (simp add: parseUnits_eval)

lemma parseUnits_1: "parseUnits ''1'' 20 = Inr (10 ^ 20)"
  unfolding parseUnits_def Let_def by (simp add: parseUnits_eval)

lemma bpow10_grid: "bpow 10 (int t - 4) = 10 ^ t / 10 ^ 4"
  using bpow10_shift [of "- 4" t] by (simp add: bpow10_minus4)

lemma positive_toString_one: "positive_toString 1 = ''1''"
proof -
  have x: "fl (of_int 1 * bpow 10 (int 4 - 4)) = Finite 1"
    using fl_of_int [of 1] by (simp add: bpow_def)
  have "shortest_digits 1 = Some (int 1 + int 4 - 4, 1, 1)"
    by (rule shortest_digits_grid [OF x]) (simp_all add: bpow_def)
  then show ?thesis
    by (simp add: positive_toString_def format_digits_def nat_to_digits.simps digit_char_def)
qed

lemma ladder_tail:
  assumes "0 \<le> j" and "j \<le> 400"
  shows "parseUnits (Number_toString (fl (of_int j / 400))) 20 = Inr (j * 25 * 10 ^ 16)"
proof -
  consider "j = 0" | "j = 400" | "0 < j" "j < 400" using assms by linarith
  then show ?thesis
  proof cases
    case 1
    then show ?thesis by (simp add: fl_def parseUnits_0)
  next
    case 2
    have "fl (of_int j / 400) = Finite 1" using fl_of_int [of 1] 2 by simp
    then show ?thesis by (simp add: positive_toString_one parseUnits_1 2)
  next
    case 3
    define m where "m = nat (25 * j)"
    have m0: "0 < m" and m4: "m < 10 ^ 4" using 3 by (simp_all add: m_def)
    have mj: "int m = 25 * j" using 3 by (simp add: m_def)
    from decimal_decomposition [OF m0 m4]
    obtain S K t where d: "m = S * 10 ^ t" "S mod 10 \<noteq> 0" "10 ^ (K - 1) \<le> S" "S < 10 ^ K"
      "1 \<le> K" "K + t \<le> 4" by blast
    define g where "g = bpow 10 (int t - 4)"
    define v where "v = of_int (int S) * g"
    have g0: "0 < g" unfolding g_def by (rule bpow10_pos)
    have g_eq: "g = 10 ^ t / 10 ^ 4" unfolding g_def by (rule bpow10_grid)
    have g_lo: "1 / 10 ^ 4 \<le> g" unfolding g_eq by (simp add: divide_right_mono)
    have "real_of_int (25 * j) = real m" using mj by (metis of_int_of_nat_eq)
    then have "real_of_int j = real m / 25" by simp
    then have vj: "of_int j / 400 = v"
      by (simp add: v_def g_eq d(1))
    have S1: "1 \<le> S" using d(3) by (metis one_le_numeral one_le_power order_trans)
    have v0: "0 < v" using S1 g0 by (simp add: v_def)
    have v1: "v < 1" using 3(2) by (simp add: vj [symmetric])
    then have "v < 128" by simp
    from fl_error_small [OF v0 this]
    obtain x where x: "fl v = Finite x" and err: "\<bar>x - v\<bar> \<le> 1 / 2 ^ 47" by blast
    have tiny47: "(1 :: real) / 2 ^ 47 < 1 / 10 ^ 4" by simp
    have KN: "bpow 10 (int K + int t - 5) = 10 ^ (K - 1) * g"
    proof -
      have "int K + int t - 5 = (int t - 4) + int (K - 1)" using d(5) by simp
      then show ?thesis unfolding g_def by (simp only: bpow10_shift) simp
    qed
    have lo: "bpow 10 (int K + int t - 5) \<le> x"
    proof (cases "S = 10 ^ (K - 1)")
      case False
      then have "10 ^ (K - 1) + 1 \<le> S" using d(3) by simp
      then have "real (10 ^ (K - 1) + 1) \<le> real S" by (simp only: of_nat_le_iff)
      then have "(10 ^ (K - 1) + 1) * g \<le> real S * g" using g0 by (simp add: mult_right_mono)
      then have "bpow 10 (int K + int t - 5) + g \<le> v"
        by (simp add: KN v_def algebra_simps)
      with err g_lo tiny47 show ?thesis by linarith
    next
      case True
      have K1: "K = 1"
      proof (rule ccontr)
        assume "K \<noteq> 1"
        with d(5) obtain K' where "K - 1 = Suc K'" by (cases "K - 1") simp_all
        with True have "S mod 10 = 0" by simp
        with d(2) show False by simp
      qed
      with True have S_eq: "S = 1" by simp
      have vg: "v = g" by (simp add: v_def S_eq)
      have m_eq: "int m = 10 ^ t" using d(1) S_eq by simp
      have t4: "t \<le> 3" using d(6) K1 by simp
      then consider "t = 0" | "t = 1" | "t = 2" | "t = 3" by linarith
      then have "g \<le> x"
      proof cases
        case 1
        with m_eq mj have "25 * j = 1" by simp
        then have False by presburger
        then show ?thesis ..
      next
        case 2
        with m_eq mj have "25 * j = 10" by simp
        then have False by presburger
        then show ?thesis ..
      next
        case 3
        then have "v = 1 / 100" by (simp add: vg g_eq)
        with x fl_hundredth show ?thesis by (simp add: vg [symmetric])
      next
        case 4
        then have "v = 1 / 10" by (simp add: vg g_eq)
        with x fl_tenth show ?thesis by (simp add: vg [symmetric])
      qed
      then show ?thesis by (simp add: K1 g_def)
    qed
    have x0: "0 < x" using lo bpow10_pos [of "int K + int t - 5"] by linarith
    have Si: "10 ^ (K - 1) \<le> int S" "int S < 10 ^ K" "int S mod 10 \<noteq> 0"
    proof -
      show "10 ^ (K - 1) \<le> int S" using d(3) by (metis of_nat_le_iff of_nat_numeral of_nat_power)
      show "int S < 10 ^ K" using d(4) by (metis of_nat_less_iff of_nat_numeral of_nat_power)
      show "int S mod 10 \<noteq> 0" using d(2) by presburger
    qed
    have K5: "K + t \<le> 5" using d(6) by simp
    have xv: "fl (of_int (int S) * bpow 10 (int t - 4)) = Finite x"
      using x by (simp add: v_def g_def)
    from shortest_digits_grid [OF xv Si d(5) K5 lo]
    have sd: "shortest_digits x = Some (int K + int t - 4, K, int S)" .
    have "Number_toString (fl (of_int j / 400)) = format_digits (int K + int t - 4) K (nat_to_digits S)"
      unfolding vj x using x0 by (simp add: positive_toString_def sd)
    then have "parseUnits (Number_toString (fl (of_int j / 400))) 20 = Inr (int S * 10 ^ (16 + t))"
      by (simp only: parseUnits_format_digits [OF d(3,4,5,6)])
    moreover have "int S * 10 ^ (16 + t) = j * 25 * 10 ^ 16"
    proof -
      have "int S * 10 ^ t = 25 * j" using mj d(1) by simp
      then show ?thesis by (simp add: power_add algebra_simps)
    qed
    ultimately show ?thesis by simp
  qed
qed

section \<open>Properties of oddsUtils.js\<close>

lemma parseUnits_one_16: "parseUnits ''1'' 16 = Inr (10 ^ 16)"
  unfolding parseUnits_def Let_def by (simp add: parseUnits_eval)

lemma bigint_rem_zero_iff:
  assumes "0 < b"
  shows "bigint_rem a b = Inr r \<Longrightarrow> (r = 0) = (a mod b = 0)"
proof -
  assume "bigint_rem a b = Inr r"
  then have r: "r = a - b * (sgn a * (\<bar>a\<bar> div b))"
    using assms by (simp add: bigint_rem_def)
  show ?thesis
  proof (cases "0 \<le> a")
    case True
    then have "sgn a * (\<bar>a\<bar> div b) = a div b" by (cases "a = 0") simp_all
    then have "r = a mod b" unfolding r by (simp add: minus_mult_div_eq_mod)
    then show ?thesis by simp
  next
    case False
    then have "sgn a * (\<bar>a\<bar> div b) = - ((- a) div b)" by simp
    then have "r = - ((- a) mod b)" unfolding r by (simp add: minus_mult_div_eq_mod [symmetric])
    then have "(r = 0) = ((- a) mod b = 0)" by simp
    also have "\<dots> = (a mod b = 0)" by (simp add: mod_eq_0_iff_dvd)
    finally show ?thesis .
  qed
qed

lemma checkOddsLadderValid_iff:
  "checkOddsLadderValid a = Inr (a mod (10 ^ 16 * 25) = 0)"
proof -
  obtain r where r: "bigint_rem a 250000000000000000 = Inr r" by (simp add: bigint_rem_def)
  have "(r = 0) = (a mod 250000000000000000 = 0)"
    by (rule bigint_rem_zero_iff [OF _ r]) simp
  then show ?thesis
    by (simp add: checkOddsLadderValid_def parseUnits_one_16 ODDS_LADDER_STEP_SIZE_def r)
qed

text \<open>
  C7. For every implied odds \<open>q\<close> strictly between 0 and 1, \<open>roundToNearestStep\<close>
  returns \<open>j * 25 * 10^16\<close>, where \<open>j\<close> is the ratio \<open>q * 100 / 0.25\<close> (as the doubles
  compute it) rounded to the nearest integer, a half going up, which for these positive
  values is away from zero; the result satisfies \<open>checkOddsLadderValid\<close>, which is true
  exactly when its argument is 0 modulo \<open>10^16 * 25\<close>. The inputs 0.5025 and 0.50333
  both give 50.25%, that is \<open>5025 * 10^16\<close>.
\<close>

theorem roundToNearestStep_on_ladder:
  assumes "0 < q" and "q < 1"
  shows "(\<exists>r. js_div (js_mul (Finite q) (Finite 100)) (Finite (1 / 4)) = Finite r
            \<and> roundToNearestStep (Finite q) = Inr (\<lfloor>r + 1 / 2\<rfloor> * 25 * 10 ^ 16)
            \<and> checkOddsLadderValid (\<lfloor>r + 1 / 2\<rfloor> * 25 * 10 ^ 16) = Inr True)
       \<and> checkOddsLadderValid a = Inr (a mod (10 ^ 16 * 25) = 0)
       \<and> roundToNearestStep (fl (5025 / 10000)) = Inr (5025 * 10 ^ 16)
       \<and> roundToNearestStep (fl (50333 / 100000)) = Inr (5025 * 10 ^ 16)"
proof -
  have general: "\<exists>r. js_div (js_mul (Finite q) (Finite 100)) (Finite (1 / 4)) = Finite r
            \<and> roundToNearestStep (Finite q) = Inr (\<lfloor>r + 1 / 2\<rfloor> * 25 * 10 ^ 16)
            \<and> checkOddsLadderValid (\<lfloor>r + 1 / 2\<rfloor> * 25 * 10 ^ 16) = Inr True"
    if "0 < q" "q < 1" for q
  proof -
    from roundToNearestStep_head [OF that]
    obtain r where r: "js_div (js_mul (Finite q) (Finite 100)) (Finite (1 / 4)) = Finite r"
      "0 \<le> r" "r \<le> 400"
      "roundToNearestStep (Finite q) =
         parseUnits (Number_toString (fl (of_int \<lfloor>r + 1 / 2\<rfloor> / 400))) 20"
      by blast
    have j0: "0 \<le> \<lfloor>r + 1 / 2\<rfloor>" using r(2) by simp
    have "r + 1 / 2 < 401" using r(3) by simp
    then have "\<lfloor>r + 1 / 2\<rfloor> < 401" by (simp add: floor_less_iff)
    then have j400: "\<lfloor>r + 1 / 2\<rfloor> \<le> 400" by simp
    have res: "roundToNearestStep (Finite q) = Inr (\<lfloor>r + 1 / 2\<rfloor> * 25 * 10 ^ 16)"
      unfolding r(4) by (rule ladder_tail [OF j0 j400])
    have "(\<lfloor>r + 1 / 2\<rfloor> * 25 * 10 ^ 16) mod (10 ^ 16 * 25) = 0" by simp
    then have "checkOddsLadderValid (\<lfloor>r + 1 / 2\<rfloor> * 25 * 10 ^ 16) = Inr True"
      by (simp only: checkOddsLadderValid_iff simp_thms)
    with r(1) res show ?thesis by blast
  qed
  have at: "roundToNearestStep (Finite X) = Inr (J * 25 * 10 ^ 16)"
    if "0 < X" "X < 1"
      and "js_div (js_mul (Finite X) (Finite 100)) (Finite (1 / 4)) = Finite R"
      and "\<lfloor>R + 1 / 2\<rfloor> = J" for X R J
  proof -
    from general [OF that(1,2)] obtain r
      where "js_div (js_mul (Finite X) (Finite 100)) (Finite (1 / 4)) = Finite r"
        and res: "roundToNearestStep (Finite X) = Inr (\<lfloor>r + 1 / 2\<rfloor> * 25 * 10 ^ 16)"
      by blast
    with that(3) have "r = R" by simp
    with res that(4) show ?thesis by simp
  qed
  have x1: "fl (5025 / 10000) = Finite (1131529406376837 / 2251799813685248)"
    by (simp add: fl_eval)
  have r1: "js_div (js_mul (Finite (1131529406376837 / 2251799813685248)) (Finite 100))
              (Finite (1 / 4)) = Finite (7072058789855231 / 35184372088832)"
    by (simp add: fl_eval)
  have e1: "roundToNearestStep (fl (5025 / 10000)) = Inr (5025 * 10 ^ 16)"
    unfolding x1 using at [OF _ _ r1, of 201] by simp
  have x2: "fl (50333 / 100000) = Finite (283349600055549 / 562949953421312)"
    by (simp add: fl_eval)
  have r2: "js_div (js_mul (Finite (283349600055549 / 562949953421312)) (Finite 100))
              (Finite (1 / 4)) = Finite (7083740001388725 / 35184372088832)"
    by (simp add: fl_eval)
  have e2: "roundToNearestStep (fl (50333 / 100000)) = Inr (5025 * 10 ^ 16)"
    unfolding x2 using at [OF _ _ r2, of 201] by simp
  from general [OF assms] checkOddsLadderValid_iff [of a] e1 e2 show ?thesis by blast
qed

theorem roundToNearestStep_on_ladder_witness:
  "(0 :: real) < 1 / 3 \<and> (1 / 3 :: real) < 1
   \<and> roundToNearestStep (Finite (1 / 3)) = Inr (3325 * 10 ^ 16)
   \<and> checkOddsLadderValid (3325 * 10 ^ 16) = Inr True"
proof -
  have h: "(0 :: real) < 1 / 3" "(1 / 3 :: real) < 1" by simp_all
  have R: "js_div (js_mul (Finite (1 / 3)) (Finite 100)) (Finite (1 / 4))
             = Finite (4691249611844267 / 35184372088832)"
    by (simp add: fl_eval)
  have J: "\<lfloor>(4691249611844267 / 35184372088832 :: real) + 1 / 2\<rfloor> = 133" by simp
  from roundToNearestStep_on_ladder [OF h, of 0] obtain r
    where a: "js_div (js_mul (Finite (1 / 3)) (Finite 100)) (Finite (1 / 4)) = Finite r"
      and b: "roundToNearestStep (Finite (1 / 3)) = Inr (\<lfloor>r + 1 / 2\<rfloor> * 25 * 10 ^ 16)"
      and c: "checkOddsLadderValid (\<lfloor>r + 1 / 2\<rfloor> * 25 * 10 ^ 16) = Inr True"
    by blast
  from a have "r = 4691249611844267 / 35184372088832" unfolding R by (simp only: number.inject)
  then have "\<lfloor>r + 1 / 2\<rfloor> = 133" using J by (simp only:)
  with b c have "roundToNearestStep (Finite (1 / 3)) = Inr (3325 * 10 ^ 16)"
    and "checkOddsLadderValid (3325 * 10 ^ 16) = Inr True"
    by simp_all
  with h show ?thesis by blast
qed

section \<open>Properties of the order grouping\<close>

lemma group_step_apply:
  "group_step g x k =
     (if taker_outcome x = k then Some (group_of g k @ [x]) else g k)"
  by (auto simp add: group_step_def group_of_def taker_outcome_def Let_def)

lemma foldl_group_step:
  "foldl group_step g xs k =
     (if filter (\<lambda>x. taker_outcome x = k) xs = [] then g k
      else Some (group_of g k @ filter (\<lambda>x. taker_outcome x = k) xs))"
proof (induction xs arbitrary: g)
  case Nil
  then show ?case by simp
next
  case (Cons x xs)
  show ?case
    unfolding foldl_Cons Cons.IH
    by (simp add: group_step_apply group_of_def)
qed

lemma groupOrdersByOutcome_fold: "groupOrdersByOutcome xs = foldl group_step Map.empty xs"
  unfolding groupOrdersByOutcome_def group_step_def by (rule refl)

lemma groupOrdersByOutcome_apply:
  "groupOrdersByOutcome xs k =
     (if filter (\<lambda>x. taker_outcome x = k) xs = [] then None
      else Some (filter (\<lambda>x. taker_outcome x = k) xs))"
  by (simp add: groupOrdersByOutcome_fold foldl_group_step group_of_def)

lemma mset_two_filters:
  "mset (filter (\<lambda>x. \<not> P x) xs) + mset (filter P xs) = mset xs"
  by (induction xs) simp_all

text \<open>
  C10. Grouping files each order under the taker's side: key 2 holds exactly the
  orders whose maker bets outcome one and key 1 the others, each in the order of the
  input; there is no other key; the two groups together are the input, every order
  occurring in exactly one of them. \<open>formatOrderForTaker\<close> labels an order with the
  same key.
\<close>

theorem groupOrdersByOutcome_partition:
  "groupOrdersByOutcome xs 2 =
     (if filter isMakerBettingOutcomeOne xs = [] then None
      else Some (filter isMakerBettingOutcomeOne xs))
   \<and> groupOrdersByOutcome xs 1 =
     (if filter (\<lambda>x. \<not> isMakerBettingOutcomeOne x) xs = [] then None
      else Some (filter (\<lambda>x. \<not> isMakerBettingOutcomeOne x) xs))
   \<and> dom (groupOrdersByOutcome xs) \<subseteq> {1, 2}
   \<and> mset (group_of (groupOrdersByOutcome xs) 1) + mset (group_of (groupOrdersByOutcome xs) 2)
       = mset xs
   \<and> set (group_of (groupOrdersByOutcome xs) 1) \<inter> set (group_of (groupOrdersByOutcome xs) 2) = {}
   \<and> outcome (formatOrderForTaker x) = (if isMakerBettingOutcomeOne x then 2 else 1)
   \<and> formatted_order.orderHash (formatOrderForTaker x) = order.orderHash x"
proof -
  have k2: "(\<lambda>x. taker_outcome x = 2) = isMakerBettingOutcomeOne"
    by (rule ext) (simp add: taker_outcome_def)
  have k1: "(\<lambda>x. taker_outcome x = 1) = (\<lambda>x. \<not> isMakerBettingOutcomeOne x)"
    by (rule ext) (simp add: taker_outcome_def)
  have g2: "groupOrdersByOutcome xs 2 =
     (if filter isMakerBettingOutcomeOne xs = [] then None
      else Some (filter isMakerBettingOutcomeOne xs))"
    using groupOrdersByOutcome_apply [of xs 2] by (simp only: k2)
  have g1: "groupOrdersByOutcome xs 1 =
     (if filter (\<lambda>x. \<not> isMakerBettingOutcomeOne x) xs = [] then None
      else Some (filter (\<lambda>x. \<not> isMakerBettingOutcomeOne x) xs))"
    using groupOrdersByOutcome_apply [of xs 1] by (simp only: k1)
  have keys: "dom (groupOrdersByOutcome xs) \<subseteq> {1, 2}"
  proof
    fix k assume "k \<in> dom (groupOrdersByOutcome xs)"
    then have "filter (\<lambda>x. taker_outcome x = k) xs \<noteq> []"
      by (auto simp add: groupOrdersByOutcome_apply split: if_splits)
    then obtain x where "taker_outcome x = k"
      by (auto simp add: filter_empty_conv)
    then show "k \<in> {1, 2}" by (auto simp add: taker_outcome_def split: if_splits)
  qed
  have o1: "group_of (groupOrdersByOutcome xs) 1 = filter (\<lambda>x. \<not> isMakerBettingOutcomeOne x) xs"
    unfolding group_of_def g1 by simp
  have o2: "group_of (groupOrdersByOutcome xs) 2 = filter isMakerBettingOutcomeOne xs"
    unfolding group_of_def g2 by simp
  have part: "mset (group_of (groupOrdersByOutcome xs) 1)
                + mset (group_of (groupOrdersByOutcome xs) 2) = mset xs"
    unfolding o1 o2 by (rule mset_two_filters)
  have disj: "set (group_of (groupOrdersByOutcome xs) 1)
                \<inter> set (group_of (groupOrdersByOutcome xs) 2) = {}"
    unfolding o1 o2 by auto
  have fmt: "outcome (formatOrderForTaker x) = (if isMakerBettingOutcomeOne x then 2 else 1)"
    "formatted_order.orderHash (formatOrderForTaker x) = order.orderHash x"
    by (simp_all add: formatOrderForTaker_def Let_def)
  from g2 g1 keys part disj fmt show ?thesis by blast
qed

section \<open>Properties of the fill and cancellation requests\<close>

lemma bytes_to_nat_example: "bytes_to_nat (replicate 31 0 @ [7]) = 7"
proof -
  have z: "foldl (\<lambda>acc b. 256 * acc + unat b) 0 (replicate n (0 :: byte)) = 0" for n
    by (induction n) simp_all
  show ?thesis by (simp add: bytes_to_nat_def z)
qed

lemma createFillOrderPayload_message:
  "fill_payload.message (fst (createFillOrderPayload rb os amts tk)) =
     \<lparr> action = ''N/A'', market = ''N/A'', betting = ''N/A'', stake = ''N/A'',
       odds = ''N/A'', returning = ''N/A'',
       fills = \<lparr>
         makerSigs = map order.signature os,
         orders = map (\<lambda>x. \<lparr> marketHash = marketHash x, baseToken = baseToken x,
                     totalBetSize = totalBetSize x, percentageOdds = percentageOdds x,
                     expiry = expiry x, salt = order_fields.salt x, maker = order_fields.maker x,
                     executor = executor x,
                     isMakerBettingOutcomeOne = isMakerBettingOutcomeOne x \<rparr>) os,
         fill_object.takerAmounts = amts,
         fill_object.fillSalt = int (bytes_to_nat rb),
         beneficiary = ZeroAddress, beneficiaryType = 0, cashOutTarget = ZeroHash \<rparr> \<rparr>"
  by (simp add: createFillOrderPayload_def Let_def)

lemma createFillOrderPayload_salt:
  "snd (createFillOrderPayload rb os amts tk) = int (bytes_to_nat rb)"
  by (simp add: createFillOrderPayload_def Let_def)

text \<open>The three ways \<open>fillOrder\<close> can end before anything is signed or sent.\<close>

lemma fillOrder_no_key:
  assumes "PRIVATE_KEY e = None \<or> PRIVATE_KEY e = Some []"
  shows "fillOrder e os amts = ([], Inl (Error ''Private key is not set in .env file''))"
  using assms by (auto simp add: fillOrder_def)

lemma fillOrder_bad_key:
  assumes "PRIVATE_KEY e = Some key" and "key \<noteq> []" and "new_Wallet e key = Inl err"
  shows "fillOrder e os amts = ([], Inl err)"
  using assms by (simp add: fillOrder_def)

text \<open>With a key that the wallet accepts, the payload is built and handed to the signer.\<close>

lemma fillOrder_effects:
  assumes "PRIVATE_KEY e = Some key" and "key \<noteq> []" and "new_Wallet e key = Inr w"
  shows "fst (fillOrder e os amts) =
           RandomBytes
           # SignFill (fst (createFillOrderPayload (randomBytes32 e) os amts
                             ''0xa6fa134f76496300419E6dbee487239F09d247aE''))
           # (case wallet_signTypedData e w
                     (fst (createFillOrderPayload (randomBytes32 e) os amts
                             ''0xa6fa134f76496300419E6dbee487239F09d247aE'')) of
                Inl err \<Rightarrow> []
              | Inr sig \<Rightarrow>
                  [PostFill (SX_BET_API_URL @ ''/orders/fill'')
                     \<lparr> action = ''N/A'', market = ''N/A'', betting = ''N/A'', stake = ''N/A'',
                       odds = ''N/A'', returning = ''N/A'',
                       fill_api_payload.orderHashes = map order.orderHash os,
                       fill_api_payload.takerAmounts = amts,
                       taker = ''0xa6fa134f76496300419E6dbee487239F09d247aE'',
                       takerSig = sig,
                       fill_api_payload.fillSalt =
                         snd (createFillOrderPayload (randomBytes32 e) os amts
                                ''0xa6fa134f76496300419E6dbee487239F09d247aE'') \<rparr>])"
  using assms
  by (simp add: fillOrder_def Let_def split_beta split: sum.splits)

lemma fillOrder_effects_cases:
  "fst (fillOrder e os amts) = []
   \<or> (\<exists>key w. PRIVATE_KEY e = Some key \<and> key \<noteq> [] \<and> new_Wallet e key = Inr w)"
proof (cases "PRIVATE_KEY e")
  case None
  then show ?thesis by (simp add: fillOrder_no_key)
next
  case (Some key)
  show ?thesis
  proof (cases "key = []")
    case True
    with Some show ?thesis by (simp add: fillOrder_no_key)
  next
    case False
    show ?thesis
    proof (cases "new_Wallet e key")
      case (Inl err)
      with Some False show ?thesis by (simp add: fillOrder_bad_key)
    next
      case (Inr w)
      with Some False show ?thesis by blast
    qed
  qed
qed

lemma fillOrder_success:
  assumes "PRIVATE_KEY e = Some key" and "key \<noteq> []" and "new_Wallet e key = Inr w"
    and "wallet_signTypedData e w
           (fst (createFillOrderPayload (randomBytes32 e) os amts
                   ''0xa6fa134f76496300419E6dbee487239F09d247aE'')) = Inr sig"
    and "fetch_fill e (SX_BET_API_URL @ ''/orders/fill'')
           \<lparr> action = ''N/A'', market = ''N/A'', betting = ''N/A'', stake = ''N/A'',
             odds = ''N/A'', returning = ''N/A'',
             fill_api_payload.orderHashes = map order.orderHash os,
             fill_api_payload.takerAmounts = amts,
             taker = ''0xa6fa134f76496300419E6dbee487239F09d247aE'',
             takerSig = sig,
             fill_api_payload.fillSalt = int (bytes_to_nat (randomBytes32 e)) \<rparr> = Inr r"
    and "status r = ''success''"
  shows "snd (fillOrder e os amts) = Inr (data r)"
  using assms
  by (simp add: fillOrder_def Let_def split_beta createFillOrderPayload_salt)

text \<open>
  C4. Whatever the orders and the taker amounts, the message that
  \<open>createFillOrderPayload\<close> builds has the six outer fields \<open>action\<close>, \<open>market\<close>,
  \<open>betting\<close>, \<open>stake\<close>, \<open>odds\<close>, \<open>returning\<close> equal to the string "N/A", and its \<open>fills\<close>
  object has the zero address as \<open>beneficiary\<close>, 0 as \<open>beneficiaryType\<close> and the zero
  hash as \<open>cashOutTarget\<close>. Every payload that \<open>fillOrder\<close> hands to the signer is such a
  message, and every body it sends to the API has the six fields equal to "N/A".
\<close>

theorem fill_placeholders:
  "action (fill_payload.message (fst (createFillOrderPayload rb os amts tk))) = ''N/A''
   \<and> market (fill_payload.message (fst (createFillOrderPayload rb os amts tk))) = ''N/A''
   \<and> betting (fill_payload.message (fst (createFillOrderPayload rb os amts tk))) = ''N/A''
   \<and> stake (fill_payload.message (fst (createFillOrderPayload rb os amts tk))) = ''N/A''
   \<and> odds (fill_payload.message (fst (createFillOrderPayload rb os amts tk))) = ''N/A''
   \<and> returning (fill_payload.message (fst (createFillOrderPayload rb os amts tk))) = ''N/A''
   \<and> beneficiary (fills (fill_payload.message (fst (createFillOrderPayload rb os amts tk))))
       = ''0x0000000000000000000000000000000000000000''
   \<and> beneficiaryType (fills (fill_payload.message (fst (createFillOrderPayload rb os amts tk)))) = 0
   \<and> cashOutTarget (fills (fill_payload.message (fst (createFillOrderPayload rb os amts tk))))
       = ''0x0000000000000000000000000000000000000000000000000000000000000000''
   \<and> (SignFill p \<in> set (fst (fillOrder e os amts)) \<longrightarrow>
         action (fill_payload.message p) = ''N/A''
         \<and> market (fill_payload.message p) = ''N/A''
         \<and> betting (fill_payload.message p) = ''N/A''
         \<and> stake (fill_payload.message p) = ''N/A''
         \<and> odds (fill_payload.message p) = ''N/A''
         \<and> returning (fill_payload.message p) = ''N/A''
         \<and> beneficiary (fills (fill_payload.message p))
             = ''0x0000000000000000000000000000000000000000''
         \<and> beneficiaryType (fills (fill_payload.message p)) = 0
         \<and> cashOutTarget (fills (fill_payload.message p))
             = ''0x0000000000000000000000000000000000000000000000000000000000000000'')
   \<and> (PostFill url body \<in> set (fst (fillOrder e os amts)) \<longrightarrow>
         action body = ''N/A'' \<and> market body = ''N/A'' \<and> betting body = ''N/A''
         \<and> stake body = ''N/A'' \<and> odds body = ''N/A'' \<and> returning body = ''N/A'')"
proof -
  have built: "action (fill_payload.message (fst (createFillOrderPayload rb os amts tk))) = ''N/A''
     \<and> market (fill_payload.message (fst (createFillOrderPayload rb os amts tk))) = ''N/A''
     \<and> betting (fill_payload.message (fst (createFillOrderPayload rb os amts tk))) = ''N/A''
     \<and> stake (fill_payload.message (fst (createFillOrderPayload rb os amts tk))) = ''N/A''
     \<and> odds (fill_payload.message (fst (createFillOrderPayload rb os amts tk))) = ''N/A''
     \<and> returning (fill_payload.message (fst (createFillOrderPayload rb os amts tk))) = ''N/A''
     \<and> beneficiary (fills (fill_payload.message (fst (createFillOrderPayload rb os amts tk))))
         = ''0x0000000000000000000000000000000000000000''
     \<and> beneficiaryType (fills (fill_payload.message (fst (createFillOrderPayload rb os amts tk)))) = 0
     \<and> cashOutTarget (fills (fill_payload.message (fst (createFillOrderPayload rb os amts tk))))
         = ''0x0000000000000000000000000000000000000000000000000000000000000000''"
    for rb tk
    unfolding createFillOrderPayload_message by (simp add: ZeroAddress_def ZeroHash_def)
  have signed: "action (fill_payload.message p) = ''N/A''
         \<and> market (fill_payload.message p) = ''N/A''
         \<and> betting (fill_payload.message p) = ''N/A''
         \<and> stake (fill_payload.message p) = ''N/A''
         \<and> odds (fill_payload.message p) = ''N/A''
         \<and> returning (fill_payload.message p) = ''N/A''
         \<and> beneficiary (fills (fill_payload.message p))
             = ''0x0000000000000000000000000000000000000000''
         \<and> beneficiaryType (fills (fill_payload.message p)) = 0
         \<and> cashOutTarget (fills (fill_payload.message p))
             = ''0x0000000000000000000000000000000000000000000000000000000000000000''"
    if "SignFill p \<in> set (fst (fillOrder e os amts))"
  proof -
    from fillOrder_effects_cases [of e os amts] that
    obtain key w where kw: "PRIVATE_KEY e = Some key" "key \<noteq> []" "new_Wallet e key = Inr w"
      by auto
    from that have "p = fst (createFillOrderPayload (randomBytes32 e) os amts
                               ''0xa6fa134f76496300419E6dbee487239F09d247aE'')"
      unfolding fillOrder_effects [OF kw] by (auto split: sum.splits)
    then show ?thesis using built by (simp only:)
  qed
  have posted: "action body = ''N/A'' \<and> market body = ''N/A'' \<and> betting body = ''N/A''
         \<and> stake body = ''N/A'' \<and> odds body = ''N/A'' \<and> returning body = ''N/A''"
    if "PostFill url body \<in> set (fst (fillOrder e os amts))"
  proof -
    from fillOrder_effects_cases [of e os amts] that
    obtain key w where kw: "PRIVATE_KEY e = Some key" "key \<noteq> []" "new_Wallet e key = Inr w"
      by auto
    from that show ?thesis
      unfolding fillOrder_effects [OF kw] by (auto split: sum.splits)
  qed
  from built [of rb tk] signed posted show ?thesis by blast
qed

lemma env0_simps:
  "PRIVATE_KEY env0 = Some ''0x01''"
  "randomBytes32 env0 = replicate 31 0 @ [7]"
  "Date_now env0 = 1700000000123"
  "new_Wallet env0 k = Inr k"
  "wallet_signTypedData env0 w p = Inr ''0x5167''"
  "signTypedData_V4 env0 k c = Inr ''0x5167''"
  "fetch_fill env0 u b = Inr \<lparr> status = ''success'', data = ''0xf111'' \<rparr>"
  "fetch_cancel env0 u d = Inr ''cancelled''"
  "keccak256 env0 bs = bs"
  "wallet_signMessage env0 w bs = Inr ''0x5167''"
  "fetch_order env0 u so = Inr ''posted''"
  by (simp_all add: env0_def)

lemma fillOrder_env0:
  "fillOrder env0 os amts =
     ([RandomBytes,
       SignFill (fst (createFillOrderPayload (replicate 31 0 @ [7]) os amts
                        ''0xa6fa134f76496300419E6dbee487239F09d247aE'')),
       PostFill ''https://api.sx.bet/orders/fill''
         \<lparr> action = ''N/A'', market = ''N/A'', betting = ''N/A'', stake = ''N/A'',
           odds = ''N/A'', returning = ''N/A'',
           fill_api_payload.orderHashes = map order.orderHash os,
           fill_api_payload.takerAmounts = amts,
           taker = ''0xa6fa134f76496300419E6dbee487239F09d247aE'',
           takerSig = ''0x5167'',
           fill_api_payload.fillSalt = 7 \<rparr>],
      Inr ''0xf111'')"
proof -
  have k: "PRIVATE_KEY env0 = Some ''0x01''" "''0x01'' \<noteq> []" "new_Wallet env0 ''0x01'' = Inr ''0x01''"
    by (simp_all add: env0_simps)
  have 1: "fst (fillOrder env0 os amts) =
     [RandomBytes,
       SignFill (fst (createFillOrderPayload (replicate 31 0 @ [7]) os amts
                        ''0xa6fa134f76496300419E6dbee487239F09d247aE'')),
       PostFill ''https://api.sx.bet/orders/fill''
         \<lparr> action = ''N/A'', market = ''N/A'', betting = ''N/A'', stake = ''N/A'',
           odds = ''N/A'', returning = ''N/A'',
           fill_api_payload.orderHashes = map order.orderHash os,
           fill_api_payload.takerAmounts = amts,
           taker = ''0xa6fa134f76496300419E6dbee487239F09d247aE'',
           takerSig = ''0x5167'',
           fill_api_payload.fillSalt = 7 \<rparr>]"
    unfolding fillOrder_effects [OF k]
    by (simp add: env0_simps createFillOrderPayload_salt bytes_to_nat_example SX_BET_API_URL_def)
  have 2: "snd (fillOrder env0 os amts) = Inr ''0xf111''"
    using fillOrder_success [OF k, of os amts "''0x5167''"
        "\<lparr> status = ''success'', data = ''0xf111'' \<rparr>"]
    by (simp add: env0_simps)
  show ?thesis by (rule prod_eqI) (simp_all add: 1 2)
qed

theorem fill_placeholders_witness:
  "SignFill (fst (createFillOrderPayload (replicate 31 0 @ [7]) [order1] [5000000]
                    ''0xa6fa134f76496300419E6dbee487239F09d247aE''))
     \<in> set (fst (fillOrder env0 [order1] [5000000]))
   \<and> PostFill ''https://api.sx.bet/orders/fill''
         \<lparr> action = ''N/A'', market = ''N/A'', betting = ''N/A'', stake = ''N/A'',
           odds = ''N/A'', returning = ''N/A'',
           fill_api_payload.orderHashes = [''0x0b''],
           fill_api_payload.takerAmounts = [5000000],
           taker = ''0xa6fa134f76496300419E6dbee487239F09d247aE'',
           takerSig = ''0x5167'',
           fill_api_payload.fillSalt = 7 \<rparr>
     \<in> set (fst (fillOrder env0 [order1] [5000000]))
   \<and> action (fill_payload.message
         (fst (createFillOrderPayload (replicate 31 0 @ [7]) [order1] [5000000]
                 ''0xa6fa134f76496300419E6dbee487239F09d247aE''))) = ''N/A''
   \<and> beneficiary (fills (fill_payload.message
         (fst (createFillOrderPayload (replicate 31 0 @ [7]) [order1] [5000000]
                 ''0xa6fa134f76496300419E6dbee487239F09d247aE''))))
       = ''0x0000000000000000000000000000000000000000''"
proof -
  have s: "SignFill (fst (createFillOrderPayload (replicate 31 0 @ [7]) [order1] [5000000]
                    ''0xa6fa134f76496300419E6dbee487239F09d247aE''))
     \<in> set (fst (fillOrder env0 [order1] [5000000]))"
    by (simp add: fillOrder_env0)
  have p: "PostFill ''https://api.sx.bet/orders/fill''
         \<lparr> action = ''N/A'', market = ''N/A'', betting = ''N/A'', stake = ''N/A'',
           odds = ''N/A'', returning = ''N/A'',
           fill_api_payload.orderHashes = [''0x0b''],
           fill_api_payload.takerAmounts = [5000000],
           taker = ''0xa6fa134f76496300419E6dbee487239F09d247aE'',
           takerSig = ''0x5167'',
           fill_api_payload.fillSalt = 7 \<rparr>
     \<in> set (fst (fillOrder env0 [order1] [5000000]))"
    by (simp add: fillOrder_env0 order1_def)
  from fill_placeholders [of "replicate 31 0 @ [7]" "[order1]" "[5000000]"
      "''0xa6fa134f76496300419E6dbee487239F09d247aE''"
      "fst (createFillOrderPayload (replicate 31 0 @ [7]) [order1] [5000000]
                    ''0xa6fa134f76496300419E6dbee487239F09d247aE'')" env0] s
  have "action (fill_payload.message
         (fst (createFillOrderPayload (replicate 31 0 @ [7]) [order1] [5000000]
                 ''0xa6fa134f76496300419E6dbee487239F09d247aE''))) = ''N/A''"
    and "beneficiary (fills (fill_payload.message
         (fst (createFillOrderPayload (replicate 31 0 @ [7]) [order1] [5000000]
                 ''0xa6fa134f76496300419E6dbee487239F09d247aE''))))
       = ''0x0000000000000000000000000000000000000000''"
    by blast+
  with s p show ?thesis by blast
qed

text \<open>
  C6 (as the code has it). \<open>fillOrder\<close> does not compare or inspect the lengths of
  \<open>orders\<close> and \<open>takerAmounts\<close>. The only check before the salt is drawn is that the
  private key is set (and the wallet accepts it). With such a key, whatever the two
  arrays are, the payload is built from them as they are and handed to the signer;
  when the signer and the endpoint succeed, so does \<open>fillOrder\<close>.
\<close>

theorem fillOrder_no_length_validation:
  "(PRIVATE_KEY e = None \<or> PRIVATE_KEY e = Some [] \<longrightarrow>
      fillOrder e os amts = ([], Inl (Error ''Private key is not set in .env file'')))
   \<and> (PRIVATE_KEY e = Some key \<and> key \<noteq> [] \<and> new_Wallet e key = Inr w \<longrightarrow>
        (\<exists>rest. fst (fillOrder e os amts) =
           RandomBytes
           # SignFill (fst (createFillOrderPayload (randomBytes32 e) os amts
                             ''0xa6fa134f76496300419E6dbee487239F09d247aE''))
           # rest)
        \<and> length (orders (fills (fill_payload.message
              (fst (createFillOrderPayload (randomBytes32 e) os amts
                      ''0xa6fa134f76496300419E6dbee487239F09d247aE''))))) = length os
        \<and> fill_object.takerAmounts (fills (fill_payload.message
              (fst (createFillOrderPayload (randomBytes32 e) os amts
                      ''0xa6fa134f76496300419E6dbee487239F09d247aE'')))) = amts
        \<and> (wallet_signTypedData e w
              (fst (createFillOrderPayload (randomBytes32 e) os amts
                      ''0xa6fa134f76496300419E6dbee487239F09d247aE'')) = Inr sig
            \<and> fetch_fill e (SX_BET_API_URL @ ''/orders/fill'')
                 \<lparr> action = ''N/A'', market = ''N/A'', betting = ''N/A'', stake = ''N/A'',
                   odds = ''N/A'', returning = ''N/A'',
                   fill_api_payload.orderHashes = map order.orderHash os,
                   fill_api_payload.takerAmounts = amts,
                   taker = ''0xa6fa134f76496300419E6dbee487239F09d247aE'',
                   takerSig = sig,
                   fill_api_payload.fillSalt = int (bytes_to_nat (randomBytes32 e)) \<rparr> = Inr r
            \<and> status r = ''success'' \<longrightarrow>
            snd (fillOrder e os amts) = Inr (data r)))"
proof -
  have a: "fillOrder e os amts = ([], Inl (Error ''Private key is not set in .env file''))"
    if "PRIVATE_KEY e = None \<or> PRIVATE_KEY e = Some []"
    using that by (rule fillOrder_no_key)
  have b: "\<exists>rest. fst (fillOrder e os amts) =
           RandomBytes
           # SignFill (fst (createFillOrderPayload (randomBytes32 e) os amts
                             ''0xa6fa134f76496300419E6dbee487239F09d247aE''))
           # rest"
    if "PRIVATE_KEY e = Some key" "key \<noteq> []" "new_Wallet e key = Inr w"
    unfolding fillOrder_effects [OF that] by blast
  have c: "length (orders (fills (fill_payload.message
              (fst (createFillOrderPayload (randomBytes32 e) os amts
                      ''0xa6fa134f76496300419E6dbee487239F09d247aE''))))) = length os"
    "fill_object.takerAmounts (fills (fill_payload.message
              (fst (createFillOrderPayload (randomBytes32 e) os amts
                      ''0xa6fa134f76496300419E6dbee487239F09d247aE'')))) = amts"
    unfolding createFillOrderPayload_message by simp_all
  from a b c fillOrder_success [of e key w os amts sig r] show ?thesis by blast
qed

theorem fillOrder_no_length_validation_witness:
  "PRIVATE_KEY env0 = Some ''0x01'' \<and> ''0x01'' \<noteq> [] \<and> new_Wallet env0 ''0x01'' = Inr ''0x01''
   \<and> (\<exists>rest. fst (fillOrder env0 [order1, order1] [5000000]) =
           RandomBytes
           # SignFill (fst (createFillOrderPayload (randomBytes32 env0) [order1, order1] [5000000]
                             ''0xa6fa134f76496300419E6dbee487239F09d247aE''))
           # rest)
   \<and> length (orders (fills (fill_payload.message
         (fst (createFillOrderPayload (randomBytes32 env0) [order1, order1] [5000000]
                 ''0xa6fa134f76496300419E6dbee487239F09d247aE''))))) = 2
   \<and> fill_object.takerAmounts (fills (fill_payload.message
         (fst (createFillOrderPayload (randomBytes32 env0) [order1, order1] [5000000]
                 ''0xa6fa134f76496300419E6dbee487239F09d247aE'')))) = [5000000]
   \<and> snd (fillOrder env0 [order1, order1] [5000000]) = Inr ''0xf111''"
proof -
  have k: "PRIVATE_KEY env0 = Some ''0x01'' \<and> ''0x01'' \<noteq> [] \<and> new_Wallet env0 ''0x01'' = Inr ''0x01''"
    by (simp add: env0_simps)
  have r: "snd (fillOrder env0 [order1, order1] [5000000]) = Inr ''0xf111''"
    by (simp add: fillOrder_env0)
  from fillOrder_no_length_validation [of env0 "[order1, order1]" "[5000000]" "''0x01''" "''0x01''"] k
  have "(\<exists>rest. fst (fillOrder env0 [order1, order1] [5000000]) =
           RandomBytes
           # SignFill (fst (createFillOrderPayload (randomBytes32 env0) [order1, order1] [5000000]
                             ''0xa6fa134f76496300419E6dbee487239F09d247aE''))
           # rest)
   \<and> length (orders (fills (fill_payload.message
         (fst (createFillOrderPayload (randomBytes32 env0) [order1, order1] [5000000]
                 ''0xa6fa134f76496300419E6dbee487239F09d247aE''))))) = length [order1, order1]
   \<and> fill_object.takerAmounts (fills (fill_payload.message
         (fst (createFillOrderPayload (randomBytes32 env0) [order1, order1] [5000000]
                 ''0xa6fa134f76496300419E6dbee487239F09d247aE'')))) = [5000000]"
    by blast
  with k r show ?thesis by simp
qed

text \<open>
  The claim as the specification states it fails: with one order and no taker amount,
  and with two empty arrays, \<open>fillOrder\<close> draws the salt, signs and sends, and returns
  the answer of the API.
\<close>

theorem fillOrder_accepts_any_lengths:
  "length [order1] \<noteq> length ([] :: int list)
   \<and> fillOrder env0 [order1] [] =
     ([RandomBytes,
       SignFill (fst (createFillOrderPayload (replicate 31 0 @ [7]) [order1] []
                        ''0xa6fa134f76496300419E6dbee487239F09d247aE'')),
       PostFill ''https://api.sx.bet/orders/fill''
         \<lparr> action = ''N/A'', market = ''N/A'', betting = ''N/A'', stake = ''N/A'',
           odds = ''N/A'', returning = ''N/A'',
           fill_api_payload.orderHashes = [''0x0b''],
           fill_api_payload.takerAmounts = [],
           taker = ''0xa6fa134f76496300419E6dbee487239F09d247aE'',
           takerSig = ''0x5167'',
           fill_api_payload.fillSalt = 7 \<rparr>],
      Inr ''0xf111'')
   \<and> fillOrder env0 [] [] =
     ([RandomBytes,
       SignFill (fst (createFillOrderPayload (replicate 31 0 @ [7]) [] []
                        ''0xa6fa134f76496300419E6dbee487239F09d247aE'')),
       PostFill ''https://api.sx.bet/orders/fill''
         \<lparr> action = ''N/A'', market = ''N/A'', betting = ''N/A'', stake = ''N/A'',
           odds = ''N/A'', returning = ''N/A'',
           fill_api_payload.orderHashes = [],
           fill_api_payload.takerAmounts = [],
           taker = ''0xa6fa134f76496300419E6dbee487239F09d247aE'',
           takerSig = ''0x5167'',
           fill_api_payload.fillSalt = 7 \<rparr>],
      Inr ''0xf111'')"
  by (simp add: fillOrder_env0 order1_def)

lemma cancelOrders_no_key:
  assumes "PRIVATE_KEY e = None \<or> PRIVATE_KEY e = Some []"
  shows "cancelOrders e hs = ([], Inl (Error ''PRIVATE_KEY not found in .env file''))"
  using assms by (auto simp add: cancelOrders_def)

lemma cancelOrders_effects:
  assumes "PRIVATE_KEY e = Some key" and "key \<noteq> []"
  shows "fst (cancelOrders e hs) =
           RandomBytes
           # SignCancel (getCancelOrderEIP712Payload hs (''0x'' @ hex_of_bytes (randomBytes32 e))
                          (Date_now e div 1000))
           # (case signTypedData_V4 e (if take 2 key = ''0x'' then drop 2 key else key)
                     (getCancelOrderEIP712Payload hs (''0x'' @ hex_of_bytes (randomBytes32 e))
                        (Date_now e div 1000)) of
                Inl err \<Rightarrow> []
              | Inr sig \<Rightarrow>
                  [PostCancel ''https://api.sx.bet/orders/cancel/v2?chainVersion=SXR''
                     \<lparr> cancel_api_payload.signature = sig,
                       orderHashes = hs,
                       salt = ''0x'' @ hex_of_bytes (randomBytes32 e),
                       maker = ''0xa6fa134f76496300419E6dbee487239F09d247aE'',
                       timestamp = Date_now e div 1000 \<rparr>])"
  using assms
  by (simp add: cancelOrders_def Let_def CANCEL_API_ENDPOINT_def CHAIN_VERSION_def MAKER_def
        split: sum.splits)

lemma cancelOrders_success:
  assumes "PRIVATE_KEY e = Some key" and "key \<noteq> []"
    and "signTypedData_V4 e (if take 2 key = ''0x'' then drop 2 key else key)
           (getCancelOrderEIP712Payload hs (''0x'' @ hex_of_bytes (randomBytes32 e))
              (Date_now e div 1000)) = Inr sig"
    and "fetch_cancel e ''https://api.sx.bet/orders/cancel/v2?chainVersion=SXR''
           \<lparr> cancel_api_payload.signature = sig,
             orderHashes = hs,
             salt = ''0x'' @ hex_of_bytes (randomBytes32 e),
             maker = ''0xa6fa134f76496300419E6dbee487239F09d247aE'',
             timestamp = Date_now e div 1000 \<rparr> = Inr answer"
  shows "snd (cancelOrders e hs) = Inr answer"
  using assms
  by (simp add: cancelOrders_def Let_def CANCEL_API_ENDPOINT_def CHAIN_VERSION_def MAKER_def)

lemma hex_of_bytes_example:
  "hex_of_bytes (replicate 31 0 @ [7]) =
     ''0000000000000000000000000000000000000000000000000000000000000007''"
  by (simp add: hex_of_bytes_def hex_digit_def replicate_numeral)

lemma cancelOrders_env0:
  "cancelOrders env0 hs =
     ([RandomBytes,
       SignCancel (getCancelOrderEIP712Payload hs
                     ''0x0000000000000000000000000000000000000000000000000000000000000007''
                     1700000000),
       PostCancel ''https://api.sx.bet/orders/cancel/v2?chainVersion=SXR''
         \<lparr> cancel_api_payload.signature = ''0x5167'',
           orderHashes = hs,
           salt = ''0x0000000000000000000000000000000000000000000000000000000000000007'',
           maker = ''0xa6fa134f76496300419E6dbee487239F09d247aE'',
           timestamp = 1700000000 \<rparr>],
      Inr ''cancelled'')"
proof -
  have k: "PRIVATE_KEY env0 = Some ''0x01''" "''0x01'' \<noteq> []"
    by (simp_all add: env0_simps)
  have 1: "fst (cancelOrders env0 hs) =
     [RandomBytes,
       SignCancel (getCancelOrderEIP712Payload hs
                     ''0x0000000000000000000000000000000000000000000000000000000000000007''
                     1700000000),
       PostCancel ''https://api.sx.bet/orders/cancel/v2?chainVersion=SXR''
         \<lparr> cancel_api_payload.signature = ''0x5167'',
           orderHashes = hs,
           salt = ''0x0000000000000000000000000000000000000000000000000000000000000007'',
           maker = ''0xa6fa134f76496300419E6dbee487239F09d247aE'',
           timestamp = 1700000000 \<rparr>]"
    unfolding cancelOrders_effects [OF k]
    by (simp add: env0_simps hex_of_bytes_example)
  have 2: "snd (cancelOrders env0 hs) = Inr ''cancelled''"
    using cancelOrders_success [OF k, of hs "''0x5167''" "''cancelled''"]
    by (simp add: env0_simps)
  show ?thesis by (rule prod_eqI) (simp_all add: 1 2)
qed

text \<open>
  C5 (as the code has it). \<open>cancelOrders\<close> does not inspect \<open>orderHashes\<close>. The only
  check before the salt is drawn is that the private key is set. With a key, whatever
  the list is, the empty list included, the payload is built with the order hashes as
  they are and handed to the signer; when the signer and the endpoint succeed, the
  body \<open>{signature, orderHashes, salt, maker, timestamp}\<close> is sent and the answer is
  returned.
\<close>

theorem cancelOrders_no_validation:
  "(PRIVATE_KEY e = None \<or> PRIVATE_KEY e = Some [] \<longrightarrow>
      cancelOrders e hs = ([], Inl (Error ''PRIVATE_KEY not found in .env file'')))
   \<and> (PRIVATE_KEY e = Some key \<and> key \<noteq> [] \<longrightarrow>
        (\<exists>rest. fst (cancelOrders e hs) =
           RandomBytes
           # SignCancel (getCancelOrderEIP712Payload hs (''0x'' @ hex_of_bytes (randomBytes32 e))
                          (Date_now e div 1000))
           # rest)
        \<and> cancel_message.orderHashes (cancel_payload.message
              (getCancelOrderEIP712Payload hs (''0x'' @ hex_of_bytes (randomBytes32 e))
                 (Date_now e div 1000))) = hs
        \<and> (signTypedData_V4 e (if take 2 key = ''0x'' then drop 2 key else key)
              (getCancelOrderEIP712Payload hs (''0x'' @ hex_of_bytes (randomBytes32 e))
                 (Date_now e div 1000)) = Inr sig
            \<and> fetch_cancel e ''https://api.sx.bet/orders/cancel/v2?chainVersion=SXR''
                 \<lparr> cancel_api_payload.signature = sig,
                   orderHashes = hs,
                   salt = ''0x'' @ hex_of_bytes (randomBytes32 e),
                   maker = ''0xa6fa134f76496300419E6dbee487239F09d247aE'',
                   timestamp = Date_now e div 1000 \<rparr> = Inr answer \<longrightarrow>
            snd (cancelOrders e hs) = Inr answer))"
proof -
  have a: "cancelOrders e hs = ([], Inl (Error ''PRIVATE_KEY not found in .env file''))"
    if "PRIVATE_KEY e = None \<or> PRIVATE_KEY e = Some []"
    using that by (rule cancelOrders_no_key)
  have b: "\<exists>rest. fst (cancelOrders e hs) =
           RandomBytes
           # SignCancel (getCancelOrderEIP712Payload hs (''0x'' @ hex_of_bytes (randomBytes32 e))
                          (Date_now e div 1000))
           # rest"
    if "PRIVATE_KEY e = Some key" "key \<noteq> []"
    unfolding cancelOrders_effects [OF that] by blast
  have c: "cancel_message.orderHashes (cancel_payload.message
              (getCancelOrderEIP712Payload hs (''0x'' @ hex_of_bytes (randomBytes32 e))
                 (Date_now e div 1000))) = hs"
    by (simp add: getCancelOrderEIP712Payload_def)
  from a b c cancelOrders_success [of e key hs sig answer] show ?thesis by blast
qed

theorem cancelOrders_no_validation_witness:
  "PRIVATE_KEY env0 = Some ''0x01'' \<and> ''0x01'' \<noteq> []
   \<and> (\<exists>rest. fst (cancelOrders env0 [''0x0b'']) =
           RandomBytes
           # SignCancel (getCancelOrderEIP712Payload [''0x0b'']
                          (''0x'' @ hex_of_bytes (randomBytes32 env0)) (Date_now env0 div 1000))
           # rest)
   \<and> cancel_message.orderHashes (cancel_payload.message
         (getCancelOrderEIP712Payload [''0x0b'']
            (''0x'' @ hex_of_bytes (randomBytes32 env0)) (Date_now env0 div 1000))) = [''0x0b'']
   \<and> snd (cancelOrders env0 [''0x0b'']) = Inr ''cancelled''"
proof -
  have k: "PRIVATE_KEY env0 = Some ''0x01'' \<and> ''0x01'' \<noteq> []"
    by (simp add: env0_simps)
  have r: "snd (cancelOrders env0 [''0x0b'']) = Inr ''cancelled''"
    by (simp add: cancelOrders_env0)
  from cancelOrders_no_validation [of env0 "[''0x0b'']" "''0x01''"] k
  have "(\<exists>rest. fst (cancelOrders env0 [''0x0b'']) =
           RandomBytes
           # SignCancel (getCancelOrderEIP712Payload [''0x0b'']
                          (''0x'' @ hex_of_bytes (randomBytes32 env0)) (Date_now env0 div 1000))
           # rest)
   \<and> cancel_message.orderHashes (cancel_payload.message
         (getCancelOrderEIP712Payload [''0x0b'']
            (''0x'' @ hex_of_bytes (randomBytes32 env0)) (Date_now env0 div 1000))) = [''0x0b'']"
    by blast
  with k r show ?thesis by blast
qed

text \<open>
  The claim as the specification states it fails: for the empty list of order hashes
  \<open>cancelOrders\<close> draws the salt, signs a payload whose \<open>orderHashes\<close> is empty, sends
  the body and returns the answer of the API.
\<close>

theorem cancelOrders_accepts_empty:
  "cancelOrders env0 [] =
     ([RandomBytes,
       SignCancel (getCancelOrderEIP712Payload []
                     ''0x0000000000000000000000000000000000000000000000000000000000000007''
                     1700000000),
       PostCancel ''https://api.sx.bet/orders/cancel/v2?chainVersion=SXR''
         \<lparr> cancel_api_payload.signature = ''0x5167'',
           orderHashes = [],
           salt = ''0x0000000000000000000000000000000000000000000000000000000000000007'',
           maker = ''0xa6fa134f76496300419E6dbee487239F09d247aE'',
           timestamp = 1700000000 \<rparr>],
      Inr ''cancelled'')
   \<and> cancel_message.orderHashes (cancel_payload.message
         (getCancelOrderEIP712Payload []
            ''0x0000000000000000000000000000000000000000000000000000000000000007''
            1700000000)) = []"
  by (simp add: cancelOrders_env0 getCancelOrderEIP712Payload_def)

section \<open>Properties of the order hash\<close>




























end
